theory Spec2Isabelle
  imports Main
begin

section \<open>The CAN node: transmit error counter and fault-confinement state\<close>

text \<open>
  \<^verbatim>\<open>utils.py\<close>: the enum \<^verbatim>\<open>ErrorStates\<close> and the class \<^verbatim>\<open>CanNode\<close>. Python's integers
  are unbounded, so the counter \<^verbatim>\<open>TEC\<close> is an \<open>int\<close>. Every method mutates the node; the
  model returns the updated node.
\<close>

datatype ErrorStates = ACTIVE | ERROR_PASSIVE | BUS_OFF

record CanNode =
  name :: string
  TEC :: int
  state :: ErrorStates

definition CanNode_init :: "string \<Rightarrow> CanNode" where
  "CanNode_init nm = \<lparr>name = nm, TEC = 0, state = ACTIVE\<rparr>"

definition update_state :: "CanNode \<Rightarrow> CanNode" where
  "update_state self =
     (if TEC self \<ge> 256 then self\<lparr>state := BUS_OFF\<rparr>
      else if TEC self \<ge> 128 then self\<lparr>state := ERROR_PASSIVE\<rparr>
      else self\<lparr>state := ACTIVE\<rparr>)"

definition collide :: "CanNode \<Rightarrow> CanNode" where
  "collide self = update_state (self\<lparr>TEC := TEC self + 8\<rparr>)"

definition succeed :: "CanNode \<Rightarrow> CanNode" where
  "succeed self =
     update_state (if TEC self > 0 then self\<lparr>TEC := TEC self - 1\<rparr> else self)"

text \<open>
  The threshold table as the specification words it: a function of the counter alone.
\<close>

definition spec_state :: "int \<Rightarrow> ErrorStates" where
  "spec_state c = (if c \<ge> 256 then BUS_OFF else if c \<ge> 128 then ERROR_PASSIVE else ACTIVE)"

text \<open>A sequence of calls on one node, oldest call first.\<close>

datatype node_op = Collide | Succeed

fun apply_op :: "node_op \<Rightarrow> CanNode \<Rightarrow> CanNode" where
  "apply_op Collide n = collide n"
| "apply_op Succeed n = succeed n"

fun apply_ops :: "node_op list \<Rightarrow> CanNode \<Rightarrow> CanNode" where
  "apply_ops [] n = n"
| "apply_ops (x # xs) n = apply_ops xs (apply_op x n)"

section \<open>The event queue\<close>

text \<open>
  An entry of \<^verbatim>\<open>self.events\<close> is the tuple \<^verbatim>\<open>(event_time, order, callback)\<close>. The list is
  only ever touched through \<^verbatim>\<open>heapq.heappush\<close> and \<^verbatim>\<open>heapq.heappop\<close> of Python's standard
  library, which are modelled by their documented behaviour: push adds the item, pop
  removes and returns the smallest item, and on an empty list pop raises (here \<open>None\<close>).
  Python compares the tuples lexicographically; the third component would be compared
  only between two entries that agree on time and order.
\<close>

type_synonym 'cb event = "int \<times> int \<times> 'cb"

fun event_time :: "'cb event \<Rightarrow> int" where
  "event_time (t, c, cb) = t"

fun event_order :: "'cb event \<Rightarrow> int" where
  "event_order (t, c, cb) = c"

fun event_callback :: "'cb event \<Rightarrow> 'cb" where
  "event_callback (t, c, cb) = cb"

fun event_key :: "'cb event \<Rightarrow> int \<times> int" where
  "event_key (t, c, cb) = (t, c)"

fun event_lt :: "'cb event \<Rightarrow> 'cb event \<Rightarrow> bool" where
  "event_lt (t1, c1, cb1) (t2, c2, cb2) = (t1 < t2 \<or> (t1 = t2 \<and> c1 < c2))"

fun smallest :: "'cb event \<Rightarrow> 'cb event list \<Rightarrow> 'cb event" where
  "smallest e [] = e"
| "smallest e (x # xs) = smallest (if event_lt x e then x else e) xs"

definition heappush :: "'cb event list \<Rightarrow> 'cb event \<Rightarrow> 'cb event list" where
  "heappush heap item = heap @ [item]"

definition heappop :: "'cb event list \<Rightarrow> ('cb event \<times> 'cb event list) option" where
  "heappop heap =
     (case heap of
        [] \<Rightarrow> None
      | x # xs \<Rightarrow> (let m = smallest x xs in Some (m, remove1 m heap)))"

section \<open>The bus base class\<close>

text \<open>
  \<^verbatim>\<open>CanBusBase\<close>: the clock, the pending events, the insertion counter, the round counter,
  the two nodes and the recorded history (the dictionary with the keys \<^verbatim>\<open>time\<close>,
  \<^verbatim>\<open>attacker\<close> and \<^verbatim>\<open>defender\<close>, one list each). The log file and the console only receive
  text and are never read back; they are left out. The two experiment classes extend the
  base class, so the functions below work on every extension of the record.
\<close>

record 'cb CanBusBase =
  time_us :: int
  events :: "'cb event list"
  counter :: int
  rounds :: int
  attacker :: CanNode
  defender :: CanNode
  hist_time :: "int list"
  hist_attacker :: "int list"
  hist_defender :: "int list"

definition CanBusBase_init :: "string \<Rightarrow> 'cb CanBusBase" where
  "CanBusBase_init log_file =
     \<lparr>time_us = 0, events = [], counter = 0, rounds = 0,
      attacker = CanNode_init ''[E] ATTACKER'',
      defender = CanNode_init ''[A] DEFENDER'',
      hist_time = [], hist_attacker = [], hist_defender = []\<rparr>"

definition schedule ::
  "int \<Rightarrow> 'cb \<Rightarrow> ('cb, 'm) CanBusBase_scheme \<Rightarrow> ('cb, 'm) CanBusBase_scheme" where
  "schedule delay_us callback self =
     self\<lparr>events := heappush (events self) (time_us self + delay_us, counter self, callback),
          counter := counter self + 1\<rparr>"

definition record_history :: "('cb, 'm) CanBusBase_scheme \<Rightarrow> ('cb, 'm) CanBusBase_scheme" where
  "record_history self =
     self\<lparr>hist_time := hist_time self @ [time_us self],
          hist_attacker := hist_attacker self @ [TEC (attacker self)],
          hist_defender := hist_defender self @ [TEC (defender self)]\<rparr>"

text \<open>
  The head of both run loops: \<^verbatim>\<open>t, _, callback = heapq.heappop(self.events)\<close> followed by
  \<^verbatim>\<open>self.time_us = t\<close>. It returns the popped entry with the bus.
\<close>

definition pop_next ::
  "('cb, 'm) CanBusBase_scheme \<Rightarrow> ('cb event \<times> ('cb, 'm) CanBusBase_scheme) option" where
  "pop_next self =
     (case heappop (events self) of
        None \<Rightarrow> None
      | Some (e, rest) \<Rightarrow> Some (e, self\<lparr>events := rest, time_us := event_time e\<rparr>))"

section \<open>Experiment 1: the two-node collision spiral\<close>

definition GAP_US :: int where
  "GAP_US = 31"

definition MAX_ROUNDS :: int where
  "MAX_ROUNDS = 3"

definition ASSISTANT_GAP_US :: int where
  "ASSISTANT_GAP_US = 200"

definition ATTACKER_PERIOD_US :: int where
  "ATTACKER_PERIOD_US = 1000000"

text \<open>
  The callbacks handed to \<^verbatim>\<open>schedule\<close> are the bound methods of the bus; an entry names
  the method. The round limit is the module constant \<^verbatim>\<open>MAX_ROUNDS\<close> in the source; the
  functions take it as the argument \<open>max_rounds\<close>, and \<open>exp1_main\<close> runs them at the
  constant.
\<close>

datatype exp1_callback =
  E1_start_round | E1_handle_collision | E1_recover_defender | E1_recover_attacker

type_synonym exp1_bus = "exp1_callback CanBusBase"

definition exp1_start_round :: "int \<Rightarrow> exp1_bus \<Rightarrow> exp1_bus" where
  "exp1_start_round max_rounds self =
     (let self = self\<lparr>rounds := rounds self + 1\<rparr> in
      if rounds self > max_rounds then self
      else schedule 0 E1_handle_collision self)"

definition exp1_handle_collision :: "exp1_bus \<Rightarrow> exp1_bus" where
  "exp1_handle_collision self =
     (let self = self\<lparr>attacker := collide (attacker self)\<rparr>;
          self = self\<lparr>defender := collide (defender self)\<rparr> in
      if state (attacker self) = ACTIVE then schedule GAP_US E1_handle_collision self
      else schedule GAP_US E1_recover_defender self)"

definition exp1_recover_defender :: "exp1_bus \<Rightarrow> exp1_bus" where
  "exp1_recover_defender self =
     (let self = self\<lparr>defender := succeed (defender self)\<rparr> in
      if state (defender self) \<noteq> ACTIVE then schedule GAP_US E1_recover_defender self
      else schedule GAP_US E1_recover_attacker self)"

definition exp1_recover_attacker :: "exp1_bus \<Rightarrow> exp1_bus" where
  "exp1_recover_attacker self =
     (let self = self\<lparr>attacker := succeed (attacker self)\<rparr> in
      if state (attacker self) \<noteq> ACTIVE then schedule GAP_US E1_recover_attacker self
      else schedule GAP_US E1_start_round self)"

fun exp1_call :: "int \<Rightarrow> exp1_callback \<Rightarrow> exp1_bus \<Rightarrow> exp1_bus" where
  "exp1_call max_rounds E1_start_round self = exp1_start_round max_rounds self"
| "exp1_call max_rounds E1_handle_collision self = exp1_handle_collision self"
| "exp1_call max_rounds E1_recover_defender self = exp1_recover_defender self"
| "exp1_call max_rounds E1_recover_attacker self = exp1_recover_attacker self"

text \<open>
  The loop of \<^verbatim>\<open>execute\<close>: while the list is not empty, pop, set the clock, record the
  history, call. Nothing in the source bounds the number of iterations, so the loop is a
  partial function: \<open>None\<close> is a run that never leaves the loop (or a pop from an empty
  list, which the loop condition excludes). The second argument collects the popped
  entries in the order in which they were executed.
\<close>

partial_function (option) exp1_loop ::
  "int \<Rightarrow> exp1_bus \<Rightarrow> exp1_callback event list
     \<Rightarrow> (exp1_bus \<times> exp1_callback event list) option" where
  "exp1_loop max_rounds self popped =
     (if events self = [] then Some (self, popped)
      else (case pop_next self of
              None \<Rightarrow> None
            | Some (e, self') \<Rightarrow>
                exp1_loop max_rounds
                  (exp1_call max_rounds (event_callback e) (record_history self'))
                  (popped @ [e])))"

declare exp1_loop.simps [code]

definition exp1_execute :: "int \<Rightarrow> (exp1_bus \<times> exp1_callback event list) option" where
  "exp1_execute max_rounds =
     exp1_loop max_rounds (schedule 0 E1_start_round (CanBusBase_init ''exp_1.txt'')) []"

definition exp1_main :: "(exp1_bus \<times> exp1_callback event list) option" where
  "exp1_main = exp1_execute MAX_ROUNDS"

text \<open>
  One full round as a sequence of executed callbacks: the first round starts from the
  counters 0 and needs sixteen collisions; every later round starts from 127.
\<close>

definition exp1_first_round :: "exp1_callback list" where
  "exp1_first_round =
     E1_start_round # replicate 16 E1_handle_collision
       @ [E1_recover_defender, E1_recover_attacker]"

definition exp1_later_round :: "exp1_callback list" where
  "exp1_later_round =
     E1_start_round # E1_handle_collision # replicate 8 E1_recover_defender
       @ replicate 8 E1_recover_attacker"

section \<open>Experiment 3: the defender assisted by a neighbour\<close>

datatype exp3_callback =
  E3_send_attack | E3_handle_collision | E3_recover_defender | E3_collide_passive
  | E3_assistant_send

record exp3_bus = "exp3_callback CanBusBase" +
  assistant :: CanNode
  hist_assistant :: "int list"

definition exp3_init :: exp3_bus where
  "exp3_init =
     CanBusBase.extend (CanBusBase_init ''exp_3.txt'')
       (exp3_bus.fields (CanNode_init ''[C] ASSISTANT'') [])"

definition exp3_record_history :: "exp3_bus \<Rightarrow> exp3_bus" where
  "exp3_record_history self =
     (let self = record_history self in
      self\<lparr>hist_assistant := hist_assistant self @ [TEC (assistant self)]\<rparr>)"

definition exp3_send_attack :: "exp3_bus \<Rightarrow> exp3_bus" where
  "exp3_send_attack self =
     (let self = schedule 0 E3_handle_collision self in
      if state (attacker self) = ACTIVE then schedule ATTACKER_PERIOD_US E3_send_attack self
      else self)"

definition exp3_handle_collision :: "exp3_bus \<Rightarrow> exp3_bus" where
  "exp3_handle_collision self =
     (let self = self\<lparr>attacker := collide (attacker self)\<rparr>;
          self = self\<lparr>defender := collide (defender self)\<rparr> in
      if state (attacker self) = ACTIVE then schedule GAP_US E3_handle_collision self
      else schedule GAP_US E3_recover_defender self)"

definition exp3_recover_defender :: "exp3_bus \<Rightarrow> exp3_bus" where
  "exp3_recover_defender self =
     (let self = self\<lparr>defender := succeed (defender self)\<rparr> in
      if state (defender self) \<noteq> ACTIVE then schedule GAP_US E3_recover_defender self
      else schedule 0 E3_collide_passive self)"

definition exp3_collide_passive :: "exp3_bus \<Rightarrow> exp3_bus" where
  "exp3_collide_passive self =
     (let self = self\<lparr>attacker := collide (attacker self)\<rparr> in
      if state (attacker self) \<noteq> BUS_OFF then
        (let next_gap = min ASSISTANT_GAP_US GAP_US in
         schedule next_gap E3_collide_passive self)
      else self)"

definition exp3_assistant_send :: "exp3_bus \<Rightarrow> exp3_bus" where
  "exp3_assistant_send self =
     (if state (attacker self) \<noteq> BUS_OFF then schedule ASSISTANT_GAP_US E3_assistant_send self
      else self)"

fun exp3_call :: "exp3_callback \<Rightarrow> exp3_bus \<Rightarrow> exp3_bus" where
  "exp3_call E3_send_attack self = exp3_send_attack self"
| "exp3_call E3_handle_collision self = exp3_handle_collision self"
| "exp3_call E3_recover_defender self = exp3_recover_defender self"
| "exp3_call E3_collide_passive self = exp3_collide_passive self"
| "exp3_call E3_assistant_send self = exp3_assistant_send self"

text \<open>
  The loop of this \<^verbatim>\<open>execute\<close> has the second condition
  \<^verbatim>\<open>self.attacker.state != ErrorStates.BUS_OFF\<close>, tested before every pop.
\<close>

partial_function (option) exp3_loop ::
  "exp3_bus \<Rightarrow> exp3_callback event list \<Rightarrow> (exp3_bus \<times> exp3_callback event list) option" where
  "exp3_loop self popped =
     (if events self \<noteq> [] \<and> state (attacker self) \<noteq> BUS_OFF then
        (case pop_next self of
           None \<Rightarrow> None
         | Some (e, self') \<Rightarrow>
             exp3_loop (exp3_call (event_callback e) (exp3_record_history self'))
               (popped @ [e]))
      else Some (self, popped))"

declare exp3_loop.simps [code]

definition exp3_execute :: "(exp3_bus \<times> exp3_callback event list) option" where
  "exp3_execute =
     exp3_loop (schedule 0 E3_assistant_send (schedule 0 E3_send_attack exp3_init)) []"

section \<open>Arbitrary use of the scheduler\<close>

text \<open>
  A callback touches the pending events only through \<^verbatim>\<open>schedule\<close>, and a run loop only
  through its pop. Whatever the callbacks are, the scheduler therefore sees a sequence of
  these two operations. \<open>sched_run\<close> performs such a sequence and returns, with the bus,
  the entries created by the calls of \<^verbatim>\<open>schedule\<close> in call order and the entries popped
  in pop order. A loop pops only when the list is not empty, so a pop on the empty
  list is skipped.
\<close>

datatype 'cb sched_op = Schedule int 'cb | PopNext

fun sched_run ::
  "'cb sched_op list \<Rightarrow> ('cb, 'm) CanBusBase_scheme \<Rightarrow> 'cb event list \<Rightarrow> 'cb event list
     \<Rightarrow> ('cb, 'm) CanBusBase_scheme \<times> 'cb event list \<times> 'cb event list" where
  "sched_run [] self scheduled popped = (self, scheduled, popped)"
| "sched_run (Schedule d cb # ops) self scheduled popped =
     sched_run ops (schedule d cb self)
       (scheduled @ [(time_us self + d, counter self, cb)]) popped"
| "sched_run (PopNext # ops) self scheduled popped =
     (case pop_next self of
        None \<Rightarrow> sched_run ops self scheduled popped
      | Some (e, self') \<Rightarrow> sched_run ops self' scheduled (popped @ [e]))"

text \<open>\<open>before a b xs\<close>: \<open>a\<close> occurs in \<open>xs\<close>, and \<open>b\<close> occurs after it.\<close>

fun before :: "'a \<Rightarrow> 'a \<Rightarrow> 'a list \<Rightarrow> bool" where
  "before a b [] = False"
| "before a b (x # xs) = (if x = a then b \<in> set xs else before a b xs)"

text \<open>
  Two properties that every sequence of scheduler operations keeps. The first: the order
  numbers of the created entries increase strictly in call order and stay below the
  counter, and every created entry is either pending or popped, never both and never
  twice. The second: an entry popped after another one of the same time with a smaller
  order number is preceded by that one in the pop order.
\<close>

definition sched_inv ::
  "('cb, 'm) CanBusBase_scheme \<Rightarrow> 'cb event list \<Rightarrow> 'cb event list \<Rightarrow> bool" where
  "sched_inv self scheduled popped \<longleftrightarrow>
     sorted_wrt (<) (map event_order scheduled)
     \<and> (\<forall>e\<in>set scheduled. event_order e < counter self)
     \<and> set (events self) \<union> set popped = set scheduled
     \<and> distinct (events self @ popped)"

definition fifo_inv :: "'cb event list \<Rightarrow> 'cb event list \<Rightarrow> bool" where
  "fifo_inv scheduled popped \<longleftrightarrow>
     (\<forall>a\<in>set scheduled. \<forall>b\<in>set popped.
        event_time a = event_time b \<and> event_order a < event_order b \<longrightarrow> before a b popped)"

section \<open>Auxiliary notions for the two experiments\<close>

text \<open>
  \<open>exp1_leads max_rounds self cbs self'\<close>: the loop of experiment 1, entered with the bus
  \<open>self\<close>, executes entries with the callbacks \<open>cbs\<close>, in this order, and then is at its
  head again with the bus \<open>self'\<close>.
\<close>

definition exp1_leads :: "int \<Rightarrow> exp1_bus \<Rightarrow> exp1_callback list \<Rightarrow> exp1_bus \<Rightarrow> bool" where
  "exp1_leads max_rounds self cbs self' \<longleftrightarrow>
     (\<exists>es. map event_callback es = cbs
        \<and> (\<forall>popped. exp1_loop max_rounds self popped = exp1_loop max_rounds self' (popped @ es)))"

text \<open>
  What holds at the head of the loop of experiment 1. At most one entry is pending, and
  the counters fit the callback that is pending: equal and below 128 before a round start
  and before a collision; from 128 to 135 while the defender recovers; the defender back
  at 127 while the attacker recovers. The recorded histories have one value per popped
  entry, none above 135, and below 128 where the popped entry is a round start.
\<close>

fun exp1_phase_ok :: "exp1_callback \<Rightarrow> int \<Rightarrow> int \<Rightarrow> bool" where
  "exp1_phase_ok E1_start_round a d = (a = d \<and> a \<le> 127)"
| "exp1_phase_ok E1_handle_collision a d = (a = d \<and> a \<le> 127)"
| "exp1_phase_ok E1_recover_defender a d = (128 \<le> a \<and> a \<le> 135 \<and> 128 \<le> d \<and> d \<le> 135)"
| "exp1_phase_ok E1_recover_attacker a d = (128 \<le> a \<and> a \<le> 135 \<and> d = 127)"

definition exp1_safe :: "exp1_bus \<Rightarrow> exp1_callback event list \<Rightarrow> bool" where
  "exp1_safe self popped \<longleftrightarrow>
     length (hist_attacker self) = length popped
     \<and> length (hist_defender self) = length popped
     \<and> (\<forall>x\<in>set (hist_attacker self). x \<le> 135)
     \<and> (\<forall>x\<in>set (hist_defender self). x \<le> 135)
     \<and> (\<forall>i<length popped. event_callback (popped ! i) = E1_start_round
           \<longrightarrow> hist_attacker self ! i < 128 \<and> hist_defender self ! i < 128)
     \<and> (case events self of
           [] \<Rightarrow> TEC (attacker self) \<le> 127 \<and> TEC (defender self) \<le> 127
         | [e] \<Rightarrow> exp1_phase_ok (event_callback e) (TEC (attacker self)) (TEC (defender self))
         | _ \<Rightarrow> False)"

text \<open>
  What holds of the clock at the head of either loop: no pending entry lies before the
  clock, the times of the popped entries never decrease and none lies after the clock,
  and the recorded times are the times of the popped entries.
\<close>

definition clock_inv :: "('cb, 'm) CanBusBase_scheme \<Rightarrow> 'cb event list \<Rightarrow> bool" where
  "clock_inv self popped \<longleftrightarrow>
     (\<forall>e\<in>set (events self). time_us self \<le> event_time e)
     \<and> sorted (map event_time popped)
     \<and> (\<forall>p\<in>set popped. event_time p \<le> time_us self)
     \<and> hist_time self = map event_time popped"

section \<open>Properties of the node\<close>

lemma TEC_update_state: "TEC (update_state n) = TEC n"
  by (simp add: update_state_def)

lemma state_update_state:
  "state (update_state n) =
     (if 256 \<le> TEC n then BUS_OFF else if 128 \<le> TEC n then ERROR_PASSIVE else ACTIVE)"
  by (simp add: update_state_def)

lemma TEC_collide: "TEC (collide n) = TEC n + 8"
  by (simp add: collide_def TEC_update_state)

lemma TEC_succeed: "TEC (succeed n) = (if 0 < TEC n then TEC n - 1 else TEC n)"
  by (simp add: succeed_def TEC_update_state)

lemma state_collide:
  "state (collide n) =
     (if 248 \<le> TEC n then BUS_OFF else if 120 \<le> TEC n then ERROR_PASSIVE else ACTIVE)"
  by (simp add: collide_def state_update_state)

lemma state_succeed:
  "state (succeed n) =
     (if 257 \<le> TEC n then BUS_OFF else if 129 \<le> TEC n then ERROR_PASSIVE else ACTIVE)"
  by (simp add: succeed_def state_update_state)

lemma name_collide: "name (collide n) = name n"
  by (simp add: collide_def update_state_def)

lemma name_succeed: "name (succeed n) = name n"
  by (simp add: succeed_def update_state_def)

text \<open>
  Claim C1. After each of the three operations that end by deriving the state (the
  derivation itself, a collision, a successful transmission) the state of the node is the
  one the thresholds give for its counter: \<open>BUS_OFF\<close> from 256 on, \<open>ERROR_PASSIVE\<close> from
  128 to 255, \<open>ACTIVE\<close> below 128; it is the value of the threshold table \<open>spec_state\<close> at
  the counter. The statement holds for every integer counter, the non-negative ones in
  particular.
\<close>

theorem derived_state_thresholds:
  assumes "m = update_state n \<or> m = collide n \<or> m = succeed n"
  shows "(256 \<le> TEC m \<longrightarrow> state m = BUS_OFF)
       \<and> (128 \<le> TEC m \<and> TEC m < 256 \<longrightarrow> state m = ERROR_PASSIVE)
       \<and> (TEC m < 128 \<longrightarrow> state m = ACTIVE)
       \<and> state m = spec_state (TEC m)"
  using assms
  by (auto simp: TEC_update_state state_update_state TEC_collide state_collide
        TEC_succeed state_succeed spec_state_def split: if_splits)

theorem derived_state_thresholds_witness:
  "TEC (collide \<lparr>name = ''n'', TEC = 119, state = BUS_OFF\<rparr>) = 127
   \<and> state (collide \<lparr>name = ''n'', TEC = 119, state = BUS_OFF\<rparr>) = ACTIVE
   \<and> TEC (collide \<lparr>name = ''n'', TEC = 120, state = ACTIVE\<rparr>) = 128
   \<and> state (collide \<lparr>name = ''n'', TEC = 120, state = ACTIVE\<rparr>) = ERROR_PASSIVE
   \<and> TEC (succeed \<lparr>name = ''n'', TEC = 256, state = BUS_OFF\<rparr>) = 255
   \<and> state (succeed \<lparr>name = ''n'', TEC = 256, state = BUS_OFF\<rparr>) = ERROR_PASSIVE
   \<and> TEC (update_state \<lparr>name = ''n'', TEC = 256, state = ACTIVE\<rparr>) = 256
   \<and> state (update_state \<lparr>name = ''n'', TEC = 256, state = ACTIVE\<rparr>) = BUS_OFF"
  using derived_state_thresholds [of "collide \<lparr>name = ''n'', TEC = 119, state = BUS_OFF\<rparr>"
          "\<lparr>name = ''n'', TEC = 119, state = BUS_OFF\<rparr>"]
        derived_state_thresholds [of "collide \<lparr>name = ''n'', TEC = 120, state = ACTIVE\<rparr>"
          "\<lparr>name = ''n'', TEC = 120, state = ACTIVE\<rparr>"]
        derived_state_thresholds [of "succeed \<lparr>name = ''n'', TEC = 256, state = BUS_OFF\<rparr>"
          "\<lparr>name = ''n'', TEC = 256, state = BUS_OFF\<rparr>"]
        derived_state_thresholds [of "update_state \<lparr>name = ''n'', TEC = 256, state = ACTIVE\<rparr>"
          "\<lparr>name = ''n'', TEC = 256, state = ACTIVE\<rparr>"]
  by (simp add: TEC_collide TEC_succeed TEC_update_state)

lemma TEC_collide_pow: "TEC ((collide ^^ k) n) = TEC n + 8 * int k"
  by (induction k) (simp_all add: TEC_collide)

lemma name_collide_pow: "name ((collide ^^ k) n) = name n"
  by (induction k) (simp_all add: name_collide)

lemma state_collide_pow:
  "0 < k \<Longrightarrow> state ((collide ^^ k) n) =
     (if 256 \<le> TEC n + 8 * int k then BUS_OFF
      else if 128 \<le> TEC n + 8 * int k then ERROR_PASSIVE else ACTIVE)"
  by (cases k) (auto simp: state_collide TEC_collide_pow)

text \<open>
  Claim C3. One collision adds exactly 8 to the counter. After \<open>k\<close> collisions a fresh
  node has the counter \<open>8 * k\<close> and the state the thresholds give for it; after 16
  collisions the node has the counter 128 and the state \<open>ERROR_PASSIVE\<close>.
\<close>

theorem collide_step_size:
  "TEC (collide m) = TEC m + 8
   \<and> TEC ((collide ^^ k) (CanNode_init nm)) = 8 * int k
   \<and> state ((collide ^^ k) (CanNode_init nm)) =
       (if 32 \<le> k then BUS_OFF else if 16 \<le> k then ERROR_PASSIVE else ACTIVE)
   \<and> (collide ^^ 16) (CanNode_init nm) = \<lparr>name = nm, TEC = 128, state = ERROR_PASSIVE\<rparr>"
proof -
  have t: "TEC ((collide ^^ k) (CanNode_init nm)) = 8 * int k" for k
    by (simp add: TEC_collide_pow CanNode_init_def)
  have s: "state ((collide ^^ k) (CanNode_init nm)) =
       (if 32 \<le> k then BUS_OFF else if 16 \<le> k then ERROR_PASSIVE else ACTIVE)" for k
  proof (cases k)
    case 0
    then show ?thesis by (simp add: CanNode_init_def)
  next
    case (Suc j)
    then show ?thesis
      using state_collide_pow [of k "CanNode_init nm"] by (auto simp: CanNode_init_def)
  qed
  have n: "name ((collide ^^ 16) (CanNode_init nm)) = nm"
    by (simp add: name_collide_pow CanNode_init_def)
  have "(collide ^^ 16) (CanNode_init nm) = \<lparr>name = nm, TEC = 128, state = ERROR_PASSIVE\<rparr>"
    using t [of 16] s [of 16] n by (cases "(collide ^^ 16) (CanNode_init nm)") simp
  then show ?thesis using t s by (simp add: TEC_collide)
qed

lemma TEC_apply_op_nonneg: "0 \<le> TEC n \<Longrightarrow> 0 \<le> TEC (apply_op x n)"
  by (cases x) (simp_all add: TEC_collide TEC_succeed)

lemma TEC_apply_ops_nonneg: "0 \<le> TEC n \<Longrightarrow> 0 \<le> TEC (apply_ops xs n)"
  by (induction xs arbitrary: n) (simp_all add: TEC_apply_op_nonneg)

text \<open>
  Claim C4. The recovery operation (\<^verbatim>\<open>succeed\<close> in the source) takes 1 from a positive
  counter and leaves any other counter as it is, then derives the state from the new
  counter. From a fresh node, no sequence of collisions and recoveries makes the counter
  negative.
\<close>

theorem succeed_floor:
  "TEC (succeed n) = (if 0 < TEC n then TEC n - 1 else TEC n)
   \<and> state (succeed n) =
       (if 256 \<le> TEC (succeed n) then BUS_OFF
        else if 128 \<le> TEC (succeed n) then ERROR_PASSIVE else ACTIVE)
   \<and> TEC (succeed (CanNode_init nm)) = 0
   \<and> 0 \<le> TEC (apply_ops xs (CanNode_init nm))"
  by (auto simp: TEC_succeed state_succeed TEC_apply_ops_nonneg CanNode_init_def)

section \<open>Properties of the scheduler\<close>

subsection \<open>The order of the entries\<close>

lemma event_lt_irrefl: "\<not> event_lt e e"
  by (cases e) simp

lemma event_lt_trans: "event_lt a b \<Longrightarrow> event_lt b c \<Longrightarrow> event_lt a c"
  by (cases a; cases b; cases c) auto

lemma event_not_lt_trans: "\<not> event_lt a b \<Longrightarrow> \<not> event_lt b c \<Longrightarrow> \<not> event_lt a c"
  by (cases a; cases b; cases c) auto

lemma event_lt_iff:
  "event_lt a b \<longleftrightarrow>
     event_time a < event_time b \<or> (event_time a = event_time b \<and> event_order a < event_order b)"
  by (cases a; cases b) simp

lemma smallest_lower: "\<not> event_lt x e \<Longrightarrow> \<not> event_lt x (smallest e xs)"
proof (induction xs arbitrary: e)
  case Nil
  then show ?case by simp
next
  case (Cons y ys)
  have "\<not> event_lt x (if event_lt y e then y else e)"
    using Cons.prems event_lt_trans [of x y e] by auto
  then show ?case using Cons.IH by simp
qed

lemma smallest_in: "smallest e xs \<in> set (e # xs)"
  by (induction xs arbitrary: e) auto

lemma smallest_least: "x \<in> set (e # xs) \<Longrightarrow> \<not> event_lt x (smallest e xs)"
proof (induction xs arbitrary: e)
  case Nil
  then show ?case by (simp add: event_lt_irrefl)
next
  case (Cons y ys)
  let ?e' = "if event_lt y e then y else e"
  have y: "\<not> event_lt y ?e'" by (simp add: event_lt_irrefl)
  have e: "\<not> event_lt e ?e'"
    using event_lt_trans [of e y e] by (auto simp: event_lt_irrefl)
  from Cons.prems consider "x = e" | "x = y" | "x \<in> set ys" by auto
  then show ?case
  proof cases
    case 1
    with e show ?thesis by (simp add: smallest_lower)
  next
    case 2
    with y show ?thesis by (simp add: smallest_lower)
  next
    case 3
    then have "x \<in> set (?e' # ys)" by simp
    from Cons.IH [OF this] show ?thesis by simp
  qed
qed

lemma heappop_None: "heappop h = None \<longleftrightarrow> h = []"
  by (cases h) (simp_all add: heappop_def Let_def)

lemma heappop_Some:
  assumes "heappop h = Some (m, rest)"
  shows "m \<in> set h" and "rest = remove1 m h" and "\<forall>x\<in>set h. \<not> event_lt x m"
proof -
  from assms obtain x xs where h: "h = x # xs" and m: "m = smallest x xs"
    and r: "rest = remove1 m h"
    by (cases h) (auto simp: heappop_def Let_def)
  show "m \<in> set h" using smallest_in [of x xs] h m by simp
  show "rest = remove1 m h" by (rule r)
  show "\<forall>x\<in>set h. \<not> event_lt x m" using smallest_least [of _ x xs] h m by simp
qed

lemma heappop_single: "heappop [e] = Some (e, [])"
  by (simp add: heappop_def)

lemma pop_next_None: "pop_next s = None \<longleftrightarrow> events s = []"
  using heappop_None [of "events s"] by (auto simp: pop_next_def split: option.splits)

lemma pop_next_Some:
  assumes "pop_next s = Some (e, s')"
  shows "e \<in> set (events s)"
    and "s' = s\<lparr>events := remove1 e (events s), time_us := event_time e\<rparr>"
    and "\<forall>x\<in>set (events s). \<not> event_lt x e"
  using assms heappop_Some [of "events s" e]
  by (auto simp: pop_next_def split: option.splits)

lemma pop_next_single:
  "events s = [e] \<Longrightarrow> pop_next s = Some (e, s\<lparr>events := [], time_us := event_time e\<rparr>)"
  by (simp add: pop_next_def heappop_single)

subsection \<open>What \<open>schedule\<close> and \<open>record_history\<close> change\<close>

lemma schedule_fields [simp]:
  "events (schedule d cb s) = events s @ [(time_us s + d, counter s, cb)]"
  "counter (schedule d cb s) = counter s + 1"
  "time_us (schedule d cb s) = time_us s"
  "rounds (schedule d cb s) = rounds s"
  "attacker (schedule d cb s) = attacker s"
  "defender (schedule d cb s) = defender s"
  "hist_time (schedule d cb s) = hist_time s"
  "hist_attacker (schedule d cb s) = hist_attacker s"
  "hist_defender (schedule d cb s) = hist_defender s"
  by (simp_all add: schedule_def heappush_def)

lemma record_history_fields [simp]:
  "events (record_history s) = events s"
  "counter (record_history s) = counter s"
  "time_us (record_history s) = time_us s"
  "rounds (record_history s) = rounds s"
  "attacker (record_history s) = attacker s"
  "defender (record_history s) = defender s"
  "hist_time (record_history s) = hist_time s @ [time_us s]"
  "hist_attacker (record_history s) = hist_attacker s @ [TEC (attacker s)]"
  "hist_defender (record_history s) = hist_defender s @ [TEC (defender s)]"
  by (simp_all add: record_history_def)

subsection \<open>Occurring before\<close>

lemma before_append_right: "before a b xs \<Longrightarrow> before a b (xs @ ys)"
  by (induction xs) (auto split: if_splits)

lemma before_snoc: "a \<in> set xs \<Longrightarrow> before a b (xs @ [b])"
  by (induction xs) auto



subsection \<open>Arbitrary sequences of scheduler operations\<close>

lemma sched_inv_schedule:
  assumes "sched_inv s sch pop"
  shows "sched_inv (schedule d cb s) (sch @ [(time_us s + d, counter s, cb)]) pop"
proof -
  let ?e = "(time_us s + d, counter s, cb)"
  from assms have ord: "\<forall>e\<in>set sch. event_order e < counter s"
    and srt: "sorted_wrt (<) (map event_order sch)"
    and un: "set (events s) \<union> set pop = set sch"
    and dist: "distinct (events s @ pop)"
    by (simp_all add: sched_inv_def)
  from ord have new: "?e \<notin> set sch" by force
  have "sorted_wrt (<) (map event_order (sch @ [?e]))"
    using srt ord by (simp add: sorted_wrt_append)
  moreover have "\<forall>e\<in>set (sch @ [?e]). event_order e < counter (schedule d cb s)"
    using ord by auto
  moreover have "set (events (schedule d cb s)) \<union> set pop = set (sch @ [?e])"
    using un by auto
  moreover have "distinct (events (schedule d cb s) @ pop)"
    using dist new un by auto
  ultimately show ?thesis by (simp add: sched_inv_def)
qed

lemma fifo_inv_schedule:
  assumes "sched_inv s sch pop" and "fifo_inv sch pop"
  shows "fifo_inv (sch @ [(time_us s + d, counter s, cb)]) pop"
proof -
  from assms(1) have ord: "\<forall>e\<in>set sch. event_order e < counter s"
    and un: "set (events s) \<union> set pop = set sch"
    by (simp_all add: sched_inv_def)
  then have "\<forall>b\<in>set pop. event_order b < counter s" by auto
  with assms(2) show ?thesis by (fastforce simp: fifo_inv_def)
qed

lemma sched_inv_pop:
  assumes "sched_inv s sch pop" and "pop_next s = Some (e, s')"
  shows "sched_inv s' sch (pop @ [e])"
proof -
  from assms(1) have ord: "\<forall>e\<in>set sch. event_order e < counter s"
    and srt: "sorted_wrt (<) (map event_order sch)"
    and un: "set (events s) \<union> set pop = set sch"
    and dist: "distinct (events s @ pop)"
    by (simp_all add: sched_inv_def)
  note p = pop_next_Some [OF assms(2)]
  have ev: "events s' = remove1 e (events s)" and c: "counter s' = counter s"
    using p(2) by simp_all
  have "set (events s') \<union> set (pop @ [e]) = set sch"
    using un dist p(1) by (auto simp: ev)
  moreover have "distinct (events s' @ pop @ [e])"
    using dist p(1) by (auto simp: ev)
  ultimately show ?thesis using ord srt by (simp add: sched_inv_def c)
qed

lemma fifo_inv_pop:
  assumes inv: "sched_inv s sch pop" and fifo: "fifo_inv sch pop"
    and pop: "pop_next s = Some (e, s')"
  shows "fifo_inv sch (pop @ [e])"
  unfolding fifo_inv_def
proof (intro ballI impI)
  fix a b
  assume a: "a \<in> set sch" and b: "b \<in> set (pop @ [e])"
    and ab: "event_time a = event_time b \<and> event_order a < event_order b"
  from inv have un: "set (events s) \<union> set pop = set sch"
    by (simp add: sched_inv_def)
  note p = pop_next_Some [OF pop]
  show "before a b (pop @ [e])"
  proof (cases "b \<in> set pop")
    case True
    with fifo a ab have "before a b pop" by (simp add: fifo_inv_def)
    then show ?thesis by (rule before_append_right)
  next
    case False
    with b have be: "b = e" by simp
    from ab have "event_lt a e" by (simp add: event_lt_iff be)
    with p(3) have "a \<notin> set (events s)" by auto
    with a un have "a \<in> set pop" by auto
    then show ?thesis by (simp add: be before_snoc)
  qed
qed

lemma sched_run_inv:
  "sched_inv s sch pop \<Longrightarrow> fifo_inv sch pop \<Longrightarrow> sched_run ops s sch pop = (s', sch', pop')
     \<Longrightarrow> sched_inv s' sch' pop' \<and> fifo_inv sch' pop'"
proof (induction ops arbitrary: s sch pop)
  case Nil
  then show ?case by simp
next
  case (Cons x ops)
  show ?case
  proof (cases x)
    case (Schedule d cb)
    with Cons.prems Cons.IH [OF sched_inv_schedule fifo_inv_schedule] show ?thesis
      by simp
  next
    case PopNext
    show ?thesis
    proof (cases "pop_next s")
      case None
      with Cons PopNext show ?thesis by simp
    next
      case (Some p)
      then obtain e s1 where p: "pop_next s = Some (e, s1)" by (cases p) simp
      with Cons.prems PopNext
        Cons.IH [OF sched_inv_pop [OF Cons.prems(1) p] fifo_inv_pop [OF Cons.prems(1,2) p]]
      show ?thesis by simp
    qed
  qed
qed

lemma sched_inv_start: "events s = [] \<Longrightarrow> sched_inv s [] []"
  by (simp add: sched_inv_def)

lemma fifo_inv_start: "fifo_inv [] []"
  by (simp add: fifo_inv_def)

section \<open>Invariants of the run loops\<close>

text \<open>
  A property that holds when a loop is entered and that one iteration keeps holds when
  the loop has returned, together with the negation of the loop condition.
\<close>

lemma exp1_loop_invariant:
  assumes run: "exp1_loop N s pop = Some (s', pop')"
    and init: "I s pop"
    and step: "\<And>s pop e s1. I s pop \<Longrightarrow> events s \<noteq> [] \<Longrightarrow> pop_next s = Some (e, s1)
      \<Longrightarrow> I (exp1_call N (event_callback e) (record_history s1)) (pop @ [e])"
  shows "I s' pop' \<and> events s' = []"
proof -
  have "M = N \<longrightarrow> I s pop \<longrightarrow> I (fst r) (snd r) \<and> events (fst r) = []"
    if "exp1_loop M s pop = Some r" for r M
  proof (rule exp1_loop.raw_induct [OF _ that])
    fix loop M s pop r
    assume IH: "\<And>M s pop r. loop M s pop = Some r
        \<Longrightarrow> M = N \<longrightarrow> I s pop \<longrightarrow> I (fst r) (snd r) \<and> events (fst r) = []"
      and body: "(if events s = [] then Some (s, pop)
          else case pop_next s of None \<Rightarrow> None
               | Some (e, self') \<Rightarrow>
                   loop M (exp1_call M (event_callback e) (record_history self')) (pop @ [e]))
         = Some r"
    show "M = N \<longrightarrow> I s pop \<longrightarrow> I (fst r) (snd r) \<and> events (fst r) = []"
    proof (cases "events s = []")
      case True
      with body show ?thesis by auto
    next
      case False
      with body obtain e s1 where p: "pop_next s = Some (e, s1)"
        and r: "loop M (exp1_call M (event_callback e) (record_history s1)) (pop @ [e]) = Some r"
        by (auto split: option.splits)
      show ?thesis
      proof (intro impI)
        assume "M = N" and "I s pop"
        then have "I (exp1_call M (event_callback e) (record_history s1)) (pop @ [e])"
          using step [OF _ False p] by simp
        with IH [OF r] \<open>M = N\<close> show "I (fst r) (snd r) \<and> events (fst r) = []" by simp
      qed
    qed
  qed
  from this [OF run] init show ?thesis by simp
qed

lemma exp3_loop_invariant:
  assumes run: "exp3_loop s pop = Some (s', pop')"
    and init: "I s pop"
    and step: "\<And>s pop e s1. I s pop \<Longrightarrow> events s \<noteq> [] \<Longrightarrow> state (attacker s) \<noteq> BUS_OFF
      \<Longrightarrow> pop_next s = Some (e, s1)
      \<Longrightarrow> I (exp3_call (event_callback e) (exp3_record_history s1)) (pop @ [e])"
  shows "I s' pop' \<and> (events s' = [] \<or> state (attacker s') = BUS_OFF)"
proof -
  have "I s pop \<longrightarrow> I (fst r) (snd r) \<and> (events (fst r) = [] \<or> state (attacker (fst r)) = BUS_OFF)"
    if "exp3_loop s pop = Some r" for r
  proof (rule exp3_loop.raw_induct [OF _ that])
    fix loop s pop r
    assume IH: "\<And>s pop r. loop s pop = Some r
        \<Longrightarrow> I s pop \<longrightarrow> I (fst r) (snd r) \<and> (events (fst r) = [] \<or> state (attacker (fst r)) = BUS_OFF)"
      and body: "(if events s \<noteq> [] \<and> state (attacker s) \<noteq> BUS_OFF
          then case pop_next s of None \<Rightarrow> None
               | Some (e, self') \<Rightarrow>
                   loop (exp3_call (event_callback e) (exp3_record_history self')) (pop @ [e])
          else Some (s, pop))
         = Some r"
    show "I s pop \<longrightarrow> I (fst r) (snd r) \<and> (events (fst r) = [] \<or> state (attacker (fst r)) = BUS_OFF)"
    proof (cases "events s \<noteq> [] \<and> state (attacker s) \<noteq> BUS_OFF")
      case False
      with body show ?thesis by auto
    next
      case True
      with body obtain e s1 where p: "pop_next s = Some (e, s1)"
        and r: "loop (exp3_call (event_callback e) (exp3_record_history s1)) (pop @ [e]) = Some r"
        by (auto split: option.splits)
      show ?thesis
      proof (intro impI)
        assume "I s pop"
        then have "I (exp3_call (event_callback e) (exp3_record_history s1)) (pop @ [e])"
          using step [OF _ _ _ p] True by simp
        with IH [OF r] show "I (fst r) (snd r) \<and> (events (fst r) = [] \<or> state (attacker (fst r)) = BUS_OFF)"
          by simp
      qed
    qed
  qed
  from this [OF run] init show ?thesis by simp
qed

section \<open>Order numbers and the order of pops\<close>

lemma sched_run_orders:
  "sched_run ops s sch pop = (s', sch', pop')
     \<Longrightarrow> counter s = c0 + int (length sch)
     \<Longrightarrow> map event_order sch = map (\<lambda>i. c0 + int i) [0..<length sch]
     \<Longrightarrow> counter s' = c0 + int (length sch')
         \<and> map event_order sch' = map (\<lambda>i. c0 + int i) [0..<length sch']"
proof (induction ops arbitrary: s sch pop)
  case Nil
  then show ?case by simp
next
  case (Cons x ops)
  show ?case
  proof (cases x)
    case (Schedule d cb)
    with Cons.prems show ?thesis
      by (intro Cons.IH [of "schedule d cb s" "sch @ [(time_us s + d, counter s, cb)]" pop]) simp_all
  next
    case PopNext
    show ?thesis
    proof (cases "pop_next s")
      case None
      with Cons PopNext show ?thesis by simp
    next
      case (Some p)
      then obtain e s1 where p: "pop_next s = Some (e, s1)" by (cases p) simp
      from pop_next_Some(2) [OF p] have "counter s1 = counter s" by simp
      with Cons.prems PopNext p show ?thesis
        by (intro Cons.IH [of s1 sch "pop @ [e]"]) simp_all
    qed
  qed
qed

lemma event_key_order: "event_key a = event_key b \<Longrightarrow> event_order a = event_order b"
  by (cases a; cases b) simp

lemma event_key_neq: "event_key a \<noteq> event_key b \<Longrightarrow> event_lt a b \<or> event_lt b a"
  by (cases a; cases b) auto

lemma distinct_keys:
  assumes srt: "sorted_wrt (<) (map event_order sch)"
    and sub: "set evs \<subseteq> set sch" and dist: "distinct evs"
  shows "distinct (map event_key evs)"
proof -
  from srt have "distinct (map event_order sch)"
    by (simp add: strict_sorted_iff)
  then have "inj_on event_order (set sch)"
    by (simp add: distinct_map)
  then have inj: "inj_on event_order (set evs)"
    using sub by (rule inj_on_subset)
  have "inj_on event_key (set evs)"
  proof (rule inj_onI)
    fix a b
    assume a: "a \<in> set evs" and b: "b \<in> set evs" and eq: "event_key a = event_key b"
    from eq have "event_order a = event_order b" by (rule event_key_order)
    with inj a b show "a = b" by (simp add: inj_on_def)
  qed
  with dist show ?thesis by (simp add: distinct_map)
qed

lemma distinct_orders:
  assumes srt: "sorted_wrt (<) (map event_order sch)"
    and sub: "set evs \<subseteq> set sch" and dist: "distinct evs"
  shows "distinct (map event_order evs)"
proof -
  from srt have "distinct (map event_order sch)"
    by (simp add: strict_sorted_iff)
  then have "inj_on event_order (set sch)"
    by (simp add: distinct_map)
  then have "inj_on event_order (set evs)"
    using sub by (rule inj_on_subset)
  with dist show ?thesis by (simp add: distinct_map)
qed

text \<open>
  Claim C10. Take any sequence of scheduler operations that starts with no pending entry.
  The entries that are then pending or have been popped are exactly the entries created by
  the calls of \<^verbatim>\<open>schedule\<close>, each of them once, and no two of them have the same order
  number. All their order numbers are below the counter, and the next call of
  \<^verbatim>\<open>schedule\<close> appends the entry with the counter as its order number and adds one to the
  counter: the new entry has an order number strictly greater than that of every entry
  scheduled before, pending or popped. In call order the order numbers are \<open>counter\<close>,
  \<open>counter + 1\<close>, ... The pending entries therefore have pairwise different
  (time, order) keys, and two different pending entries are always ordered by time and
  order alone; the callbacks are never needed to compare.
\<close>

theorem sequence_numbers_unique:
  assumes "events s = []" and "sched_run ops s [] [] = (s', scheduled, popped)"
  shows "set (events s') \<union> set popped = set scheduled
       \<and> distinct (events s' @ popped)
       \<and> distinct (map event_order (events s' @ popped))
       \<and> (\<forall>e\<in>set (events s') \<union> set popped. event_order e < counter s')
       \<and> events (schedule d cb s') = events s' @ [(time_us s' + d, counter s', cb)]
       \<and> counter (schedule d cb s') = counter s' + 1
       \<and> (\<forall>e\<in>set (events s') \<union> set popped.
            event_order e < event_order (last (events (schedule d cb s'))))
       \<and> map event_order scheduled = map (\<lambda>i. counter s + int i) [0..<length scheduled]
       \<and> sorted_wrt (<) (map event_order scheduled)
       \<and> counter s' = counter s + int (length scheduled)
       \<and> distinct (map event_key (events s'))
       \<and> (\<forall>a\<in>set (events s'). \<forall>b\<in>set (events s'). a \<noteq> b \<longrightarrow> event_lt a b \<or> event_lt b a)"
proof -
  from sched_run_inv [OF sched_inv_start [OF assms(1)] fifo_inv_start assms(2)]
  have inv: "sched_inv s' scheduled popped" by simp
  from inv have srt: "sorted_wrt (<) (map event_order scheduled)"
    by (simp add: sched_inv_def)
  from inv have ord: "\<forall>e\<in>set scheduled. event_order e < counter s'"
    by (simp add: sched_inv_def)
  from inv have un: "set (events s') \<union> set popped = set scheduled"
    by (simp add: sched_inv_def)
  then have sub: "set (events s') \<subseteq> set scheduled" by blast
  from inv have dist2: "distinct (events s' @ popped)"
    by (simp add: sched_inv_def)
  then have dist: "distinct (events s')" by simp
  from un have sub2: "set (events s' @ popped) \<subseteq> set scheduled" by auto
  have dord: "distinct (map event_order (events s' @ popped))"
    by (rule distinct_orders [OF srt sub2 dist2])
  from ord un have below: "\<forall>e\<in>set (events s') \<union> set popped. event_order e < counter s'"
    by simp
  have new: "events (schedule d cb s') = events s' @ [(time_us s' + d, counter s', cb)]"
    and cnew: "counter (schedule d cb s') = counter s' + 1"
    by simp_all
  from below have above: "\<forall>e\<in>set (events s') \<union> set popped.
      event_order e < event_order (last (events (schedule d cb s')))"
    by (simp add: new)
  from sched_run_orders [OF assms(2), of "counter s"]
  have cnt: "counter s' = counter s + int (length scheduled)"
    and ords: "map event_order scheduled = map (\<lambda>i. counter s + int i) [0..<length scheduled]"
    by simp_all
  have keys: "distinct (map event_key (events s'))"
    by (rule distinct_keys [OF srt sub dist])
  then have kinj: "inj_on event_key (set (events s'))"
    by (simp add: distinct_map)
  have tot: "\<forall>a\<in>set (events s'). \<forall>b\<in>set (events s'). a \<noteq> b \<longrightarrow> event_lt a b \<or> event_lt b a"
  proof (intro ballI impI)
    fix a b
    assume a: "a \<in> set (events s')" and b: "b \<in> set (events s')" and ne: "a \<noteq> b"
    from kinj a b ne have "event_key a \<noteq> event_key b" by (auto simp: inj_on_def)
    then show "event_lt a b \<or> event_lt b a" by (rule event_key_neq)
  qed
  from un dist2 dord below new cnew above ords srt cnt keys tot show ?thesis by (intro conjI)
qed

theorem sequence_numbers_unique_witness:
  "sched_run [Schedule 31 E3_send_attack, Schedule 10 E3_assistant_send, PopNext,
      Schedule 21 E3_handle_collision] (CanBusBase_init ''log'') [] []
     = ((CanBusBase_init ''log'')
          \<lparr>events := [(31, 0, E3_send_attack), (31, 2, E3_handle_collision)],
           counter := 3, time_us := 10\<rparr>,
        [(31, 0, E3_send_attack), (10, 1, E3_assistant_send), (31, 2, E3_handle_collision)],
        [(10, 1, E3_assistant_send)])
   \<and> map event_order
        ([(31, 0, E3_send_attack), (31, 2, E3_handle_collision)] @ [(10, 1, E3_assistant_send)])
       = [0, 2, 1]
   \<and> events (schedule 5 E3_collide_passive
        ((CanBusBase_init ''log'')
          \<lparr>events := [(31, 0, E3_send_attack), (31, 2, E3_handle_collision)],
           counter := 3, time_us := 10\<rparr>))
       = [(31, 0, E3_send_attack), (31, 2, E3_handle_collision), (15, 3, E3_collide_passive)]
   \<and> distinct (map event_key [(31, 0, E3_send_attack), (31, 2, E3_handle_collision)])"
proof -
  let ?ops = "[Schedule 31 E3_send_attack, Schedule 10 E3_assistant_send, PopNext,
        Schedule 21 E3_handle_collision]"
  let ?s = "CanBusBase_init ''log'' :: exp3_callback CanBusBase"
  have e: "events ?s = []" by (simp add: CanBusBase_init_def)
  have r: "sched_run ?ops ?s [] []
     = (?s\<lparr>events := [(31, 0, E3_send_attack), (31, 2, E3_handle_collision)],
           counter := 3, time_us := 10\<rparr>,
        [(31, 0, E3_send_attack), (10, 1, E3_assistant_send), (31, 2, E3_handle_collision)],
        [(10, 1, E3_assistant_send)])"
    by (simp add: CanBusBase_init_def pop_next_def heappop_def schedule_def heappush_def)
  from sequence_numbers_unique [OF e r, of 5 E3_collide_passive] r show ?thesis
    by simp
qed



text \<open>
  Claim C2 says that a call of \<^verbatim>\<open>schedule\<close> with a negative delay is rejected. The source
  has no check of the delay: the call with the delay \<open>-5\<close> on a fresh bus changes the bus,
  the entry is pending with the time \<open>-5\<close>, and the next pop sets the clock to \<open>-5\<close>.
\<close>

theorem negative_delay_counterexample:
  "events (schedule (- 5) E1_start_round (CanBusBase_init ''exp_1.txt''))
     = [(- 5, 0, E1_start_round)]
   \<and> schedule (- 5) E1_start_round (CanBusBase_init ''exp_1.txt'')
       \<noteq> CanBusBase_init ''exp_1.txt''
   \<and> map_option (\<lambda>(e, self). (e, time_us self))
       (pop_next (schedule (- 5) E1_start_round (CanBusBase_init ''exp_1.txt'')))
     = Some ((- 5, 0, E1_start_round), - 5)"
  by (simp add: schedule_def heappush_def CanBusBase_init_def pop_next_def heappop_def)

text \<open>
  Claim C2, as the source behaves: \<^verbatim>\<open>schedule\<close> does not look at the sign of the delay.
  For every delay the call appends the one entry with the time clock + delay, the counter
  as order number and the callback to the pending entries, which it otherwise leaves as
  they are, adds one to the counter and changes nothing else. With a negative delay the
  time of the new entry lies before the clock: the delay is used as it is, not replaced
  by 0. If nothing else is pending, the next pop returns that entry and sets the clock to
  its time.
\<close>

theorem schedule_accepts_every_delay:
  "schedule d cb s
     = s\<lparr>events := events s @ [(time_us s + d, counter s, cb)], counter := counter s + 1\<rparr>
   \<and> events (schedule d cb s) = events s @ [(time_us s + d, counter s, cb)]
   \<and> counter (schedule d cb s) = counter s + 1
   \<and> time_us (schedule d cb s) = time_us s
   \<and> (d < 0 \<longrightarrow> event_time (last (events (schedule d cb s))) < time_us s)
   \<and> (events s = [] \<longrightarrow>
        map_option (\<lambda>(e, self). (e, time_us self)) (pop_next (schedule d cb s))
          = Some ((time_us s + d, counter s, cb), time_us s + d))"
  by (simp add: pop_next_single) (simp add: schedule_def heappush_def)

theorem schedule_accepts_every_delay_witness:
  "events (schedule (- 5) E1_start_round
       ((CanBusBase_init ''exp_1.txt'')\<lparr>events := [(7, 0, E1_handle_collision)], counter := 1\<rparr>))
     = [(7, 0, E1_handle_collision), (- 5, 1, E1_start_round)]
   \<and> event_time (last (events (schedule (- 5) E1_start_round (CanBusBase_init ''exp_1.txt''))))
       < time_us (CanBusBase_init ''exp_1.txt'' :: exp1_bus)
   \<and> map_option (\<lambda>(e, self). (e, time_us self))
       (pop_next (schedule (- 5) E1_start_round (CanBusBase_init ''exp_1.txt'')))
     = Some ((- 5, 0, E1_start_round), - 5)"
proof -
  let ?s = "CanBusBase_init ''exp_1.txt'' :: exp1_bus"
  let ?p = "?s\<lparr>events := [(7, 0, E1_handle_collision)], counter := 1\<rparr>"
  have f: "time_us ?s = 0" "counter ?s = 0" "events ?s = []"
    by (simp_all add: CanBusBase_init_def)
  have g: "time_us ?p = 0" "counter ?p = 1" "events ?p = [(7, 0, E1_handle_collision)]"
    by (simp_all add: CanBusBase_init_def)
  from schedule_accepts_every_delay [of "- 5" E1_start_round ?p]
  have 1: "events (schedule (- 5) E1_start_round ?p)
      = [(7, 0, E1_handle_collision), (- 5, 1, E1_start_round)]"
    by (simp add: g)
  from schedule_accepts_every_delay [of "- 5" E1_start_round ?s]
  have 2: "event_time (last (events (schedule (- 5) E1_start_round ?s))) < time_us ?s"
    and 3: "map_option (\<lambda>(e, self). (e, time_us self))
       (pop_next (schedule (- 5) E1_start_round ?s)) = Some ((- 5, 0, E1_start_round), - 5)"
    by (simp_all add: f)
  from 1 2 3 show ?thesis by (intro conjI)
qed

section \<open>Experiment 1: rounds\<close>

subsection \<open>What the callbacks of experiment 1 change\<close>

lemma exp1_start_round_fields:
  "rounds (exp1_start_round N s) = rounds s + 1"
  "events (exp1_start_round N s) =
     (if rounds s + 1 > N then events s
      else events s @ [(time_us s, counter s, E1_handle_collision)])"
  "counter (exp1_start_round N s) = (if rounds s + 1 > N then counter s else counter s + 1)"
  "time_us (exp1_start_round N s) = time_us s"
  "attacker (exp1_start_round N s) = attacker s"
  "defender (exp1_start_round N s) = defender s"
  "hist_time (exp1_start_round N s) = hist_time s"
  "hist_attacker (exp1_start_round N s) = hist_attacker s"
  "hist_defender (exp1_start_round N s) = hist_defender s"
  by (simp_all add: exp1_start_round_def Let_def)

lemma exp1_handle_collision_fields:
  "rounds (exp1_handle_collision s) = rounds s"
  "events (exp1_handle_collision s) =
     events s @ [(time_us s + GAP_US, counter s,
       if TEC (attacker s) < 120 then E1_handle_collision else E1_recover_defender)]"
  "counter (exp1_handle_collision s) = counter s + 1"
  "time_us (exp1_handle_collision s) = time_us s"
  "attacker (exp1_handle_collision s) = collide (attacker s)"
  "defender (exp1_handle_collision s) = collide (defender s)"
  "hist_time (exp1_handle_collision s) = hist_time s"
  "hist_attacker (exp1_handle_collision s) = hist_attacker s"
  "hist_defender (exp1_handle_collision s) = hist_defender s"
  by (simp_all add: exp1_handle_collision_def Let_def state_collide)

lemma exp1_recover_defender_fields:
  "rounds (exp1_recover_defender s) = rounds s"
  "events (exp1_recover_defender s) =
     events s @ [(time_us s + GAP_US, counter s,
       if 129 \<le> TEC (defender s) then E1_recover_defender else E1_recover_attacker)]"
  "counter (exp1_recover_defender s) = counter s + 1"
  "time_us (exp1_recover_defender s) = time_us s"
  "attacker (exp1_recover_defender s) = attacker s"
  "defender (exp1_recover_defender s) = succeed (defender s)"
  "hist_time (exp1_recover_defender s) = hist_time s"
  "hist_attacker (exp1_recover_defender s) = hist_attacker s"
  "hist_defender (exp1_recover_defender s) = hist_defender s"
  by (simp_all add: exp1_recover_defender_def Let_def state_succeed)

lemma exp1_recover_attacker_fields:
  "rounds (exp1_recover_attacker s) = rounds s"
  "events (exp1_recover_attacker s) =
     events s @ [(time_us s + GAP_US, counter s,
       if 129 \<le> TEC (attacker s) then E1_recover_attacker else E1_start_round)]"
  "counter (exp1_recover_attacker s) = counter s + 1"
  "time_us (exp1_recover_attacker s) = time_us s"
  "attacker (exp1_recover_attacker s) = succeed (attacker s)"
  "defender (exp1_recover_attacker s) = defender s"
  "hist_time (exp1_recover_attacker s) = hist_time s"
  "hist_attacker (exp1_recover_attacker s) = hist_attacker s"
  "hist_defender (exp1_recover_attacker s) = hist_defender s"
  by (simp_all add: exp1_recover_attacker_def Let_def state_succeed)

lemmas exp1_fields = exp1_start_round_fields exp1_handle_collision_fields
  exp1_recover_defender_fields exp1_recover_attacker_fields

subsection \<open>Unfolding the loop of experiment 1\<close>

lemma exp1_loop_stop: "events s = [] \<Longrightarrow> exp1_loop N s pop = Some (s, pop)"
  by (subst exp1_loop.simps) simp

lemma exp1_loop_step:
  "events s = [(t, c, cb)] \<Longrightarrow>
     exp1_loop N s pop =
       exp1_loop N (exp1_call N cb (record_history (s\<lparr>events := [], time_us := t\<rparr>)))
         (pop @ [(t, c, cb)])"
  by (subst exp1_loop.simps) (simp add: pop_next_single)

lemma exp1_leads_refl: "exp1_leads N s [] s"
  unfolding exp1_leads_def by (rule exI [of _ "[]"]) simp

lemma exp1_leads_trans:
  assumes "exp1_leads N s xs s1" and "exp1_leads N s1 ys s2"
  shows "exp1_leads N s (xs @ ys) s2"
proof -
  from assms(1) obtain es where es: "map event_callback es = xs"
    "\<And>pop. exp1_loop N s pop = exp1_loop N s1 (pop @ es)"
    unfolding exp1_leads_def by blast
  from assms(2) obtain fs where fs: "map event_callback fs = ys"
    "\<And>pop. exp1_loop N s1 pop = exp1_loop N s2 (pop @ fs)"
    unfolding exp1_leads_def by blast
  have "map event_callback (es @ fs) = xs @ ys" using es(1) fs(1) by simp
  moreover have "\<forall>pop. exp1_loop N s pop = exp1_loop N s2 (pop @ es @ fs)"
    using es(2) fs(2) by simp
  ultimately show ?thesis unfolding exp1_leads_def by blast
qed

lemma exp1_leads_step:
  assumes "events s = [(t, c, cb)]"
  shows "exp1_leads N s [cb] (exp1_call N cb (record_history (s\<lparr>events := [], time_us := t\<rparr>)))"
  unfolding exp1_leads_def
  by (rule exI [of _ "[(t, c, cb)]"]) (simp add: exp1_loop_step [OF assms])

lemma exp1_leads_result:
  assumes "exp1_leads N s cbs s'" and "events s' = []"
  shows "\<exists>tr. exp1_loop N s [] = Some (s', tr) \<and> map event_callback tr = cbs"
proof -
  from assms(1) obtain es where es: "map event_callback es = cbs"
    "\<And>pop. exp1_loop N s pop = exp1_loop N s' (pop @ es)"
    unfolding exp1_leads_def by blast
  have "exp1_loop N s [] = Some (s', es)"
    using es(2) [of "[]"] exp1_loop_stop [OF assms(2)] by simp
  with es(1) show ?thesis by blast
qed

subsection \<open>The phases of a round\<close>

lemma exp1_collisions:
  "events s = [(t, c, E1_handle_collision)]
     \<Longrightarrow> 128 \<le> TEC (attacker s) + 8 * int (Suc k)
     \<Longrightarrow> TEC (attacker s) + 8 * int (Suc k) < 136
     \<Longrightarrow> \<exists>s' t' c'. exp1_leads N s (replicate (Suc k) E1_handle_collision) s'
           \<and> events s' = [(t', c', E1_recover_defender)]
           \<and> TEC (attacker s') = TEC (attacker s) + 8 * int (Suc k)
           \<and> TEC (defender s') = TEC (defender s) + 8 * int (Suc k)
           \<and> rounds s' = rounds s"
proof (induction k arbitrary: s t c)
  case 0
  let ?s1 = "exp1_call N E1_handle_collision (record_history (s\<lparr>events := [], time_us := t\<rparr>))"
  have "exp1_leads N s [E1_handle_collision] ?s1"
    by (rule exp1_leads_step [OF 0(1)])
  moreover have "events ?s1 = [(t + GAP_US, counter s, E1_recover_defender)]"
    using 0(2,3) by (simp add: exp1_fields)
  moreover have "TEC (attacker ?s1) = TEC (attacker s) + 8" "TEC (defender ?s1) = TEC (defender s) + 8"
    "rounds ?s1 = rounds s"
    by (simp_all add: exp1_fields TEC_collide)
  ultimately show ?case by (intro exI [of _ ?s1]) simp
next
  case (Suc k)
  let ?s1 = "exp1_call N E1_handle_collision (record_history (s\<lparr>events := [], time_us := t\<rparr>))"
  have l1: "exp1_leads N s [E1_handle_collision] ?s1"
    by (rule exp1_leads_step [OF Suc.prems(1)])
  have e1: "events ?s1 = [(t + GAP_US, counter s, E1_handle_collision)]"
    using Suc.prems(2,3) by (simp add: exp1_fields)
  have f1: "TEC (attacker ?s1) = TEC (attacker s) + 8" "TEC (defender ?s1) = TEC (defender s) + 8"
    "rounds ?s1 = rounds s"
    by (simp_all add: exp1_fields TEC_collide)
  from Suc.IH [OF e1] Suc.prems(2,3) f1
  obtain s' t' c' where s': "exp1_leads N ?s1 (replicate (Suc k) E1_handle_collision) s'"
    "events s' = [(t', c', E1_recover_defender)]"
    "TEC (attacker s') = TEC (attacker ?s1) + 8 * int (Suc k)"
    "TEC (defender s') = TEC (defender ?s1) + 8 * int (Suc k)"
    "rounds s' = rounds ?s1"
    by auto
  from exp1_leads_trans [OF l1 s'(1)]
  have "exp1_leads N s (replicate (Suc (Suc k)) E1_handle_collision) s'" by simp
  with s'(2-5) f1 show ?case by (intro exI [of _ s']) simp
qed

lemma exp1_defender_recovery:
  "events s = [(t, c, E1_recover_defender)]
     \<Longrightarrow> TEC (defender s) = 127 + int (Suc k)
     \<Longrightarrow> \<exists>s' t' c'. exp1_leads N s (replicate (Suc k) E1_recover_defender) s'
           \<and> events s' = [(t', c', E1_recover_attacker)]
           \<and> attacker s' = attacker s
           \<and> TEC (defender s') = 127 \<and> state (defender s') = ACTIVE
           \<and> rounds s' = rounds s"
proof (induction k arbitrary: s t c)
  case 0
  let ?s1 = "exp1_call N E1_recover_defender (record_history (s\<lparr>events := [], time_us := t\<rparr>))"
  have "exp1_leads N s [E1_recover_defender] ?s1"
    by (rule exp1_leads_step [OF 0(1)])
  moreover have "events ?s1 = [(t + GAP_US, counter s, E1_recover_attacker)]"
    using 0(2) by (simp add: exp1_fields)
  moreover have "TEC (defender ?s1) = 127" "state (defender ?s1) = ACTIVE"
    "attacker ?s1 = attacker s" "rounds ?s1 = rounds s"
    using 0(2) by (simp_all add: exp1_fields TEC_succeed state_succeed)
  ultimately show ?case by (intro exI [of _ ?s1]) simp
next
  case (Suc k)
  let ?s1 = "exp1_call N E1_recover_defender (record_history (s\<lparr>events := [], time_us := t\<rparr>))"
  have l1: "exp1_leads N s [E1_recover_defender] ?s1"
    by (rule exp1_leads_step [OF Suc.prems(1)])
  have e1: "events ?s1 = [(t + GAP_US, counter s, E1_recover_defender)]"
    using Suc.prems(2) by (simp add: exp1_fields)
  have f1: "TEC (defender ?s1) = 127 + int (Suc k)" "attacker ?s1 = attacker s"
    "rounds ?s1 = rounds s"
    using Suc.prems(2) by (simp_all add: exp1_fields TEC_succeed)
  from Suc.IH [OF e1 f1(1)]
  obtain s' t' c' where s': "exp1_leads N ?s1 (replicate (Suc k) E1_recover_defender) s'"
    "events s' = [(t', c', E1_recover_attacker)]"
    "attacker s' = attacker ?s1"
    "TEC (defender s') = 127" "state (defender s') = ACTIVE"
    "rounds s' = rounds ?s1"
    by auto
  from exp1_leads_trans [OF l1 s'(1)]
  have "exp1_leads N s (replicate (Suc (Suc k)) E1_recover_defender) s'" by simp
  with s'(2-6) f1 show ?case by (intro exI [of _ s']) simp
qed

lemma exp1_attacker_recovery:
  "events s = [(t, c, E1_recover_attacker)]
     \<Longrightarrow> TEC (attacker s) = 127 + int (Suc k)
     \<Longrightarrow> \<exists>s' t' c'. exp1_leads N s (replicate (Suc k) E1_recover_attacker) s'
           \<and> events s' = [(t', c', E1_start_round)]
           \<and> defender s' = defender s
           \<and> TEC (attacker s') = 127 \<and> state (attacker s') = ACTIVE
           \<and> rounds s' = rounds s"
proof (induction k arbitrary: s t c)
  case 0
  let ?s1 = "exp1_call N E1_recover_attacker (record_history (s\<lparr>events := [], time_us := t\<rparr>))"
  have "exp1_leads N s [E1_recover_attacker] ?s1"
    by (rule exp1_leads_step [OF 0(1)])
  moreover have "events ?s1 = [(t + GAP_US, counter s, E1_start_round)]"
    using 0(2) by (simp add: exp1_fields)
  moreover have "TEC (attacker ?s1) = 127" "state (attacker ?s1) = ACTIVE"
    "defender ?s1 = defender s" "rounds ?s1 = rounds s"
    using 0(2) by (simp_all add: exp1_fields TEC_succeed state_succeed)
  ultimately show ?case by (intro exI [of _ ?s1]) simp
next
  case (Suc k)
  let ?s1 = "exp1_call N E1_recover_attacker (record_history (s\<lparr>events := [], time_us := t\<rparr>))"
  have l1: "exp1_leads N s [E1_recover_attacker] ?s1"
    by (rule exp1_leads_step [OF Suc.prems(1)])
  have e1: "events ?s1 = [(t + GAP_US, counter s, E1_recover_attacker)]"
    using Suc.prems(2) by (simp add: exp1_fields)
  have f1: "TEC (attacker ?s1) = 127 + int (Suc k)" "defender ?s1 = defender s"
    "rounds ?s1 = rounds s"
    using Suc.prems(2) by (simp_all add: exp1_fields TEC_succeed)
  from Suc.IH [OF e1 f1(1)]
  obtain s' t' c' where s': "exp1_leads N ?s1 (replicate (Suc k) E1_recover_attacker) s'"
    "events s' = [(t', c', E1_start_round)]"
    "defender s' = defender ?s1"
    "TEC (attacker s') = 127" "state (attacker s') = ACTIVE"
    "rounds s' = rounds ?s1"
    by auto
  from exp1_leads_trans [OF l1 s'(1)]
  have "exp1_leads N s (replicate (Suc (Suc k)) E1_recover_attacker) s'" by simp
  with s'(2-6) f1 show ?case by (intro exI [of _ s']) simp
qed

lemma exp1_round_start:
  assumes "events s = [(t, c, E1_start_round)]" and "rounds s < N"
  shows "\<exists>s' t' c'. exp1_leads N s [E1_start_round] s'
           \<and> events s' = [(t', c', E1_handle_collision)]
           \<and> attacker s' = attacker s \<and> defender s' = defender s
           \<and> rounds s' = rounds s + 1"
proof -
  let ?s1 = "exp1_call N E1_start_round (record_history (s\<lparr>events := [], time_us := t\<rparr>))"
  have "exp1_leads N s [E1_start_round] ?s1"
    by (rule exp1_leads_step [OF assms(1)])
  moreover have "events ?s1 = [(t, counter s, E1_handle_collision)]"
    using assms(2) by (simp add: exp1_fields)
  moreover have "attacker ?s1 = attacker s" "defender ?s1 = defender s"
    "rounds ?s1 = rounds s + 1"
    by (simp_all add: exp1_fields)
  ultimately show ?thesis by (intro exI [of _ ?s1]) simp
qed

lemma exp1_round_stop:
  assumes "events s = [(t, c, E1_start_round)]" and "N \<le> rounds s"
  shows "\<exists>s'. exp1_leads N s [E1_start_round] s' \<and> events s' = []
           \<and> attacker s' = attacker s \<and> defender s' = defender s
           \<and> rounds s' = rounds s + 1"
proof -
  let ?s1 = "exp1_call N E1_start_round (record_history (s\<lparr>events := [], time_us := t\<rparr>))"
  have "exp1_leads N s [E1_start_round] ?s1"
    by (rule exp1_leads_step [OF assms(1)])
  moreover have "events ?s1 = []"
    using assms(2) by (simp add: exp1_fields)
  moreover have "attacker ?s1 = attacker s" "defender ?s1 = defender s"
    "rounds ?s1 = rounds s + 1"
    by (simp_all add: exp1_fields)
  ultimately show ?thesis by (intro exI [of _ ?s1]) simp
qed

lemma exp1_round_from:
  assumes ev: "events s = [(t, c, E1_start_round)]" and r: "rounds s < N"
    and a: "TEC (attacker s) = TEC (defender s)"
    and k: "128 \<le> TEC (attacker s) + 8 * int (Suc k)" "TEC (attacker s) + 8 * int (Suc k) < 136"
    and j: "TEC (attacker s) + 8 * int (Suc k) = 127 + int (Suc j)"
  shows "\<exists>s' t' c'. exp1_leads N s
             ([E1_start_round] @ replicate (Suc k) E1_handle_collision
                @ replicate (Suc j) E1_recover_defender @ replicate (Suc j) E1_recover_attacker) s'
           \<and> events s' = [(t', c', E1_start_round)]
           \<and> TEC (attacker s') = 127 \<and> TEC (defender s') = 127
           \<and> state (attacker s') = ACTIVE \<and> state (defender s') = ACTIVE
           \<and> rounds s' = rounds s + 1"
proof -
  from exp1_round_start [OF ev r] obtain s1 t1 c1 where s1:
    "exp1_leads N s [E1_start_round] s1" "events s1 = [(t1, c1, E1_handle_collision)]"
    "attacker s1 = attacker s" "defender s1 = defender s" "rounds s1 = rounds s + 1"
    by blast
  from exp1_collisions [OF s1(2), of k N] k s1(3)
  obtain s2 t2 c2 where s2:
    "exp1_leads N s1 (replicate (Suc k) E1_handle_collision) s2"
    "events s2 = [(t2, c2, E1_recover_defender)]"
    "TEC (attacker s2) = TEC (attacker s1) + 8 * int (Suc k)"
    "TEC (defender s2) = TEC (defender s1) + 8 * int (Suc k)"
    "rounds s2 = rounds s1"
    by auto
  have d2: "TEC (defender s2) = 127 + int (Suc j)" and a2: "TEC (attacker s2) = 127 + int (Suc j)"
    using s2(3,4) s1(3,4) a j by simp_all
  from exp1_defender_recovery [OF s2(2) d2, of N]
  obtain s3 t3 c3 where s3:
    "exp1_leads N s2 (replicate (Suc j) E1_recover_defender) s3"
    "events s3 = [(t3, c3, E1_recover_attacker)]"
    "attacker s3 = attacker s2"
    "TEC (defender s3) = 127" "state (defender s3) = ACTIVE"
    "rounds s3 = rounds s2"
    by blast
  have a3: "TEC (attacker s3) = 127 + int (Suc j)" using a2 s3(3) by simp
  from exp1_attacker_recovery [OF s3(2) a3, of N]
  obtain s4 t4 c4 where s4:
    "exp1_leads N s3 (replicate (Suc j) E1_recover_attacker) s4"
    "events s4 = [(t4, c4, E1_start_round)]"
    "defender s4 = defender s3"
    "TEC (attacker s4) = 127" "state (attacker s4) = ACTIVE"
    "rounds s4 = rounds s3"
    by blast
  note exp1_leads_trans [OF s1(1) exp1_leads_trans [OF s2(1) exp1_leads_trans [OF s3(1) s4(1)]]]
  moreover have "TEC (defender s4) = 127" "state (defender s4) = ACTIVE"
    "rounds s4 = rounds s + 1"
    using s4(3,6) s3(4,5,6) s2(5) s1(5) by simp_all
  ultimately show ?thesis using s4(2,4,5) by (intro exI [of _ s4]) simp
qed

lemma exp1_first_round_run:
  assumes "events s = [(t, c, E1_start_round)]" and "rounds s < N"
    and "TEC (attacker s) = 0" and "TEC (defender s) = 0"
  shows "\<exists>s' t' c'. exp1_leads N s exp1_first_round s'
           \<and> events s' = [(t', c', E1_start_round)]
           \<and> TEC (attacker s') = 127 \<and> TEC (defender s') = 127
           \<and> state (attacker s') = ACTIVE \<and> state (defender s') = ACTIVE
           \<and> rounds s' = rounds s + 1"
proof -
  have eq: "[E1_start_round] @ replicate (Suc 15) E1_handle_collision
      @ replicate (Suc 0) E1_recover_defender @ replicate (Suc 0) E1_recover_attacker
      = exp1_first_round"
    by (simp add: exp1_first_round_def numeral_eq_Suc)
  from exp1_round_from [OF assms(1,2), of 15 0] assms(3,4) show ?thesis
    unfolding eq by simp
qed

lemma exp1_later_round_run:
  assumes "events s = [(t, c, E1_start_round)]" and "rounds s < N"
    and "TEC (attacker s) = 127" and "TEC (defender s) = 127"
  shows "\<exists>s' t' c'. exp1_leads N s exp1_later_round s'
           \<and> events s' = [(t', c', E1_start_round)]
           \<and> TEC (attacker s') = 127 \<and> TEC (defender s') = 127
           \<and> state (attacker s') = ACTIVE \<and> state (defender s') = ACTIVE
           \<and> rounds s' = rounds s + 1"
proof -
  have eq: "[E1_start_round] @ replicate (Suc 0) E1_handle_collision
      @ replicate (Suc 7) E1_recover_defender @ replicate (Suc 7) E1_recover_attacker
      = exp1_later_round"
    by (simp add: exp1_later_round_def numeral_eq_Suc)
  from exp1_round_from [OF assms(1,2), of 0 7] assms(3,4) show ?thesis
    unfolding eq by simp
qed

lemma exp1_later_rounds:
  "events s = [(t, c, E1_start_round)]
     \<Longrightarrow> TEC (attacker s) = 127 \<Longrightarrow> TEC (defender s) = 127
     \<Longrightarrow> state (attacker s) = ACTIVE \<Longrightarrow> state (defender s) = ACTIVE
     \<Longrightarrow> rounds s + int m = N
     \<Longrightarrow> \<exists>s' t' c'. exp1_leads N s (concat (replicate m exp1_later_round)) s'
           \<and> events s' = [(t', c', E1_start_round)]
           \<and> TEC (attacker s') = 127 \<and> TEC (defender s') = 127
           \<and> state (attacker s') = ACTIVE \<and> state (defender s') = ACTIVE
           \<and> rounds s' = N"
proof (induction m arbitrary: s t c)
  case 0
  then show ?case using exp1_leads_refl [of N s] by auto
next
  case (Suc m)
  from Suc.prems(6) have r: "rounds s < N" by simp
  from exp1_later_round_run [OF Suc.prems(1) r Suc.prems(2,3)]
  obtain s1 t1 c1 where s1: "exp1_leads N s exp1_later_round s1"
    "events s1 = [(t1, c1, E1_start_round)]"
    "TEC (attacker s1) = 127" "TEC (defender s1) = 127"
    "state (attacker s1) = ACTIVE" "state (defender s1) = ACTIVE"
    "rounds s1 = rounds s + 1"
    by blast
  from s1(7) Suc.prems(6) have "rounds s1 + int m = N" by simp
  from Suc.IH [OF s1(2-6) this]
  obtain s' t' c' where s': "exp1_leads N s1 (concat (replicate m exp1_later_round)) s'"
    "events s' = [(t', c', E1_start_round)]"
    "TEC (attacker s') = 127" "TEC (defender s') = 127"
    "state (attacker s') = ACTIVE" "state (defender s') = ACTIVE"
    "rounds s' = N"
    by blast
  from exp1_leads_trans [OF s1(1) s'(1)]
  have "exp1_leads N s (concat (replicate (Suc m) exp1_later_round)) s'" by simp
  with s'(2-7) show ?case by blast
qed

lemma exp1_run:
  assumes "1 \<le> N"
  shows "\<exists>s tr. exp1_execute N = Some (s, tr)
           \<and> map event_callback tr =
               exp1_first_round @ concat (replicate (nat (N - 1)) exp1_later_round)
                 @ [E1_start_round]
           \<and> events s = [] \<and> rounds s = N + 1
           \<and> TEC (attacker s) = 127 \<and> TEC (defender s) = 127
           \<and> state (attacker s) = ACTIVE \<and> state (defender s) = ACTIVE"
proof -
  let ?s0 = "schedule 0 E1_start_round (CanBusBase_init ''exp_1.txt'') :: exp1_bus"
  have e0: "events ?s0 = [(0, 0, E1_start_round)]"
    and f0: "TEC (attacker ?s0) = 0" "TEC (defender ?s0) = 0" "rounds ?s0 = 0"
    by (simp_all add: CanBusBase_init_def CanNode_init_def)
  from assms f0(3) have r0: "rounds ?s0 < N" by simp
  from exp1_first_round_run [OF e0 r0 f0(1,2)]
  obtain s1 t1 c1 where s1: "exp1_leads N ?s0 exp1_first_round s1"
    "events s1 = [(t1, c1, E1_start_round)]"
    "TEC (attacker s1) = 127" "TEC (defender s1) = 127"
    "state (attacker s1) = ACTIVE" "state (defender s1) = ACTIVE"
    "rounds s1 = rounds ?s0 + 1"
    by blast
  from s1(7) f0(3) assms have "rounds s1 + int (nat (N - 1)) = N" by simp
  from exp1_later_rounds [OF s1(2-6) this]
  obtain s2 t2 c2 where s2:
    "exp1_leads N s1 (concat (replicate (nat (N - 1)) exp1_later_round)) s2"
    "events s2 = [(t2, c2, E1_start_round)]"
    "TEC (attacker s2) = 127" "TEC (defender s2) = 127"
    "state (attacker s2) = ACTIVE" "state (defender s2) = ACTIVE"
    "rounds s2 = N"
    by blast
  from s2(7) have "N \<le> rounds s2" by simp
  from exp1_round_stop [OF s2(2) this]
  obtain s3 where s3: "exp1_leads N s2 [E1_start_round] s3" "events s3 = []"
    "attacker s3 = attacker s2" "defender s3 = defender s2" "rounds s3 = rounds s2 + 1"
    by blast
  from exp1_leads_result [OF exp1_leads_trans [OF s1(1) exp1_leads_trans [OF s2(1) s3(1)]] s3(2)]
  obtain tr where tr: "exp1_loop N ?s0 [] = Some (s3, tr)"
    "map event_callback tr =
       exp1_first_round @ concat (replicate (nat (N - 1)) exp1_later_round) @ [E1_start_round]"
    by blast
  from tr(1) have "exp1_execute N = Some (s3, tr)" by (simp add: exp1_execute_def)
  with tr(2) s3(2-5) s2(3-7) show ?thesis by (intro exI [of _ s3] exI [of _ tr]) simp
qed

section \<open>Experiment 1: bounds on the counters, and the clock\<close>

lemma exp1_phase_bound:
  "exp1_phase_ok cb a d \<Longrightarrow> a \<le> 135 \<and> d \<le> 135 \<and> (cb = E1_start_round \<longrightarrow> a < 128 \<and> d < 128)"
  by (cases cb) auto

lemma exp1_phase_next:
  assumes "exp1_phase_ok cb (TEC (attacker s)) (TEC (defender s))" and "events s = []"
  shows "case events (exp1_call N cb s) of
           [] \<Rightarrow> TEC (attacker (exp1_call N cb s)) \<le> 127 \<and> TEC (defender (exp1_call N cb s)) \<le> 127
         | [e] \<Rightarrow> exp1_phase_ok (event_callback e) (TEC (attacker (exp1_call N cb s)))
                    (TEC (defender (exp1_call N cb s)))
         | _ \<Rightarrow> False"
  using assms by (cases cb) (auto simp: exp1_fields TEC_collide TEC_succeed)

lemma exp1_call_hist:
  "hist_attacker (exp1_call N cb s) = hist_attacker s"
  "hist_defender (exp1_call N cb s) = hist_defender s"
  "hist_time (exp1_call N cb s) = hist_time s"
  "time_us (exp1_call N cb s) = time_us s"
  by (cases cb; simp add: exp1_fields)+

lemma exp1_safe_step:
  assumes inv: "exp1_safe s pop" and ne: "events s \<noteq> []" and p: "pop_next s = Some (e, s1)"
  shows "exp1_safe (exp1_call N (event_callback e) (record_history s1)) (pop @ [e])"
proof -
  from inv ne obtain e0 where ev: "events s = [e0]"
    and ok: "exp1_phase_ok (event_callback e0) (TEC (attacker s)) (TEC (defender s))"
    by (auto simp: exp1_safe_def split: list.splits)
  from p ev have e: "e = e0" and s1: "s1 = s\<lparr>events := [], time_us := event_time e0\<rparr>"
    by (auto simp: pop_next_single)
  let ?r = "record_history s1"
  let ?s' = "exp1_call N (event_callback e) ?r"
  have r: "events s1 = []" "attacker s1 = attacker s" "defender s1 = defender s"
    "hist_attacker s1 = hist_attacker s" "hist_defender s1 = hist_defender s"
    by (simp_all add: s1)
  have re: "events ?r = []" by (simp add: r)
  from inv have len: "length (hist_attacker s) = length pop" "length (hist_defender s) = length pop"
    and ba: "\<forall>x\<in>set (hist_attacker s). x \<le> 135" and bd: "\<forall>x\<in>set (hist_defender s). x \<le> 135"
    and rs: "\<forall>i<length pop. event_callback (pop ! i) = E1_start_round
           \<longrightarrow> hist_attacker s ! i < 128 \<and> hist_defender s ! i < 128"
    by (simp_all add: exp1_safe_def)
  note b = exp1_phase_bound [OF ok]
  have 1: "length (hist_attacker ?s') = length (pop @ [e])"
    "length (hist_defender ?s') = length (pop @ [e])"
    by (simp_all add: exp1_call_hist r len)
  have 2: "\<forall>x\<in>set (hist_attacker ?s'). x \<le> 135" "\<forall>x\<in>set (hist_defender ?s'). x \<le> 135"
    using ba bd b by (simp_all add: exp1_call_hist r)
  have 3: "\<forall>i<length (pop @ [e]). event_callback ((pop @ [e]) ! i) = E1_start_round
           \<longrightarrow> hist_attacker ?s' ! i < 128 \<and> hist_defender ?s' ! i < 128"
  proof (intro allI impI)
    fix i assume i: "i < length (pop @ [e])"
      and cb: "event_callback ((pop @ [e]) ! i) = E1_start_round"
    show "hist_attacker ?s' ! i < 128 \<and> hist_defender ?s' ! i < 128"
    proof (cases "i < length pop")
      case True
      with rs cb show ?thesis by (simp add: exp1_call_hist exp1_fields r nth_append len)
    next
      case False
      with i have "i = length pop" by simp
      with cb b show ?thesis by (simp add: exp1_call_hist exp1_fields r nth_append len e)
    qed
  qed
  from ok have "exp1_phase_ok (event_callback e) (TEC (attacker ?r)) (TEC (defender ?r))"
    by (simp add: r e)
  from exp1_phase_next [OF this re, of N]
  have 4: "case events ?s' of
           [] \<Rightarrow> TEC (attacker ?s') \<le> 127 \<and> TEC (defender ?s') \<le> 127
         | [e] \<Rightarrow> exp1_phase_ok (event_callback e) (TEC (attacker ?s')) (TEC (defender ?s'))
         | _ \<Rightarrow> False" .
  from 1 2 3 4 show ?thesis unfolding exp1_safe_def by (intro conjI)
qed

lemma exp1_safe_init:
  "exp1_safe (schedule 0 E1_start_round (CanBusBase_init ''exp_1.txt'')) []"
  by (simp add: exp1_safe_def CanBusBase_init_def CanNode_init_def)

lemma exp1_safe_result:
  assumes "exp1_execute N = Some (s, tr)"
  shows "exp1_safe s tr \<and> events s = []"
  using exp1_loop_invariant [where I = exp1_safe, OF assms [unfolded exp1_execute_def]
      exp1_safe_init exp1_safe_step]
  by simp

subsection \<open>The clock\<close>

lemma clock_inv_pop:
  assumes inv: "clock_inv s pop" and p: "pop_next s = Some (e, s1)"
  shows "clock_inv (record_history s1) (pop @ [e])"
proof -
  note q = pop_next_Some [OF p]
  from inv have ev: "\<forall>x\<in>set (events s). time_us s \<le> event_time x"
    and srt: "sorted (map event_time pop)"
    and le: "\<forall>x\<in>set pop. event_time x \<le> time_us s"
    and h: "hist_time s = map event_time pop"
    by (simp_all add: clock_inv_def)
  from ev q(1) have te: "time_us s \<le> event_time e" by simp
  have f: "events s1 = remove1 e (events s)" "time_us s1 = event_time e"
    "hist_time s1 = hist_time s"
    by (simp_all add: q(2))
  have 1: "\<forall>x\<in>set (events (record_history s1)). time_us (record_history s1) \<le> event_time x"
  proof
    fix x assume "x \<in> set (events (record_history s1))"
    then have "x \<in> set (remove1 e (events s))" by (simp add: f)
    then have "x \<in> set (events s)" using set_remove1_subset [of e "events s"] by blast
    with q(3) have "\<not> event_lt x e" by simp
    then show "time_us (record_history s1) \<le> event_time x"
      by (auto simp: event_lt_iff f)
  qed
  have 2: "sorted (map event_time (pop @ [e]))"
    using srt le te by (auto simp: sorted_append)
  have 3: "\<forall>x\<in>set (pop @ [e]). event_time x \<le> time_us (record_history s1)"
    using le te by (auto simp: f)
  have 4: "hist_time (record_history s1) = map event_time (pop @ [e])"
    by (simp add: f h)
  from 1 2 3 4 show ?thesis unfolding clock_inv_def by (intro conjI)
qed

lemma clock_inv_callback:
  assumes "clock_inv s pop" and "time_us s' = time_us s" and "hist_time s' = hist_time s"
    and "\<forall>e\<in>set (events s'). e \<in> set (events s) \<or> time_us s \<le> event_time e"
  shows "clock_inv s' pop"
  using assms unfolding clock_inv_def by auto

lemma exp1_call_events:
  "\<forall>e\<in>set (events (exp1_call N cb s)). e \<in> set (events s) \<or> time_us s \<le> event_time e"
  by (cases cb) (auto simp: exp1_fields GAP_US_def)

lemma exp1_clock_step:
  assumes "clock_inv s pop" and "pop_next s = Some (e, s1)"
  shows "clock_inv (exp1_call N (event_callback e) (record_history s1)) (pop @ [e])"
proof (rule clock_inv_callback [OF clock_inv_pop [OF assms]])
  show "\<forall>x\<in>set (events (exp1_call N (event_callback e) (record_history s1))).
      x \<in> set (events (record_history s1)) \<or> time_us (record_history s1) \<le> event_time x"
    by (rule exp1_call_events)
qed (simp_all add: exp1_call_hist)

lemma clock_inv_init: "events s = [] \<Longrightarrow> hist_time s = [] \<Longrightarrow> clock_inv s []"
  by (simp add: clock_inv_def)

lemma clock_inv_schedule: "clock_inv s pop \<Longrightarrow> 0 \<le> d \<Longrightarrow> clock_inv (schedule d cb s) pop"
  by (auto simp: clock_inv_def)

lemma exp1_clock_result:
  assumes "exp1_execute N = Some (s, tr)"
  shows "clock_inv s tr"
proof -
  have "clock_inv (schedule 0 E1_start_round (CanBusBase_init ''exp_1.txt'' :: exp1_bus)) []"
    by (rule clock_inv_schedule [OF clock_inv_init]) (simp_all add: CanBusBase_init_def)
  from exp1_loop_invariant [where I = clock_inv, OF assms [unfolded exp1_execute_def] this
      exp1_clock_step]
  show ?thesis by simp
qed

section \<open>Experiment 3: the clock and the run\<close>

lemma exp3_record_history_fields:
  "events (exp3_record_history s) = events s"
  "time_us (exp3_record_history s) = time_us s"
  "hist_time (exp3_record_history s) = hist_time s @ [time_us s]"
  by (simp_all add: exp3_record_history_def Let_def)

lemma exp3_call_clock:
  "time_us (exp3_call cb s) = time_us s"
  "hist_time (exp3_call cb s) = hist_time s"
  by (cases cb; simp add: exp3_send_attack_def exp3_handle_collision_def
        exp3_recover_defender_def exp3_collide_passive_def exp3_assistant_send_def Let_def)+

lemma exp3_call_events:
  "\<forall>e\<in>set (events (exp3_call cb s)). e \<in> set (events s) \<or> time_us s \<le> event_time e"
  by (cases cb)
     (auto simp: exp3_send_attack_def exp3_handle_collision_def
        exp3_recover_defender_def exp3_collide_passive_def exp3_assistant_send_def Let_def
        GAP_US_def ASSISTANT_GAP_US_def ATTACKER_PERIOD_US_def)

lemma clock_inv_cong:
  "events a = events b \<Longrightarrow> time_us a = time_us b \<Longrightarrow> hist_time a = hist_time b
     \<Longrightarrow> clock_inv a pop = clock_inv b pop"
  by (simp add: clock_inv_def)

lemma exp3_clock_step:
  assumes "clock_inv s pop" and "pop_next s = Some (e, s1)"
  shows "clock_inv (exp3_call (event_callback e) (exp3_record_history s1)) (pop @ [e])"
proof (rule clock_inv_callback)
  have "clock_inv (exp3_record_history s1) (pop @ [e]) = clock_inv (record_history s1) (pop @ [e])"
    by (rule clock_inv_cong) (simp_all add: exp3_record_history_fields)
  with clock_inv_pop [OF assms] show "clock_inv (exp3_record_history s1) (pop @ [e])" by simp
  show "\<forall>x\<in>set (events (exp3_call (event_callback e) (exp3_record_history s1))).
      x \<in> set (events (exp3_record_history s1))
        \<or> time_us (exp3_record_history s1) \<le> event_time x"
    by (rule exp3_call_events)
qed (simp_all add: exp3_call_clock)

lemma exp3_clock_result:
  assumes "exp3_execute = Some (s, tr)"
  shows "clock_inv s tr"
proof -
  have "clock_inv (schedule 0 E3_assistant_send (schedule 0 E3_send_attack exp3_init)) []"
    by (intro clock_inv_schedule clock_inv_init)
       (simp_all add: exp3_init_def CanBusBase_init_def CanBusBase.defs)
  from exp3_loop_invariant [where I = clock_inv, OF assms [unfolded exp3_execute_def] this
      exp3_clock_step]
  show ?thesis by simp
qed

lemma exp3_loop_bus_off: "state (attacker s) = BUS_OFF \<Longrightarrow> exp3_loop s pop = Some (s, pop)"
  by (subst exp3_loop.simps) simp

lemma exp3_run:
  "exp3_execute =
     Some
      (\<lparr>time_us = 961,
        events = [(1000000, 3, E3_send_attack), (1000, 35, E3_assistant_send)],
        counter = 41, rounds = 0,
        attacker = \<lparr>name = ''[E] ATTACKER'', TEC = 256, state = BUS_OFF\<rparr>,
        defender = \<lparr>name = ''[A] DEFENDER'', TEC = 127, state = ACTIVE\<rparr>,
        hist_time =
          [0, 0, 0, 31, 62, 93, 124, 155, 186, 200, 217, 248, 279, 310, 341,
           372, 400, 403, 434, 465, 496, 496, 527, 558, 589, 600, 620, 651,
           682, 713, 744, 775, 800, 806, 837, 868, 899, 930, 961],
        hist_attacker =
          [0, 0, 0, 8, 16, 24, 32, 40, 48, 56, 56, 64, 72, 80, 88, 96, 104,
           104, 112, 120, 128, 128, 136, 144, 152, 160, 160, 168, 176, 184,
           192, 200, 208, 208, 216, 224, 232, 240, 248],
        hist_defender =
          [0, 0, 0, 8, 16, 24, 32, 40, 48, 56, 56, 64, 72, 80, 88, 96, 104,
           104, 112, 120, 128, 127, 127, 127, 127, 127, 127, 127, 127, 127,
           127, 127, 127, 127, 127, 127, 127, 127, 127],
        assistant = \<lparr>name = ''[C] ASSISTANT'', TEC = 0, state = ACTIVE\<rparr>,
        hist_assistant =
          [0, 0, 0, 0, 0, 0, 0, 0, 0, 0, 0, 0, 0, 0, 0, 0, 0, 0, 0, 0, 0, 0,
           0, 0, 0, 0, 0, 0, 0, 0, 0, 0, 0, 0, 0, 0, 0, 0, 0]\<rparr>,
       [(0, 0, E3_send_attack), (0, 1, E3_assistant_send),
        (0, 2, E3_handle_collision), (31, 5, E3_handle_collision),
        (62, 6, E3_handle_collision), (93, 7, E3_handle_collision),
        (124, 8, E3_handle_collision), (155, 9, E3_handle_collision),
        (186, 10, E3_handle_collision), (200, 4, E3_assistant_send),
        (217, 11, E3_handle_collision), (248, 13, E3_handle_collision),
        (279, 14, E3_handle_collision), (310, 15, E3_handle_collision),
        (341, 16, E3_handle_collision), (372, 17, E3_handle_collision),
        (400, 12, E3_assistant_send), (403, 18, E3_handle_collision),
        (434, 20, E3_handle_collision), (465, 21, E3_handle_collision),
        (496, 22, E3_recover_defender), (496, 23, E3_collide_passive),
        (527, 24, E3_collide_passive), (558, 25, E3_collide_passive),
        (589, 26, E3_collide_passive), (600, 19, E3_assistant_send),
        (620, 27, E3_collide_passive), (651, 29, E3_collide_passive),
        (682, 30, E3_collide_passive), (713, 31, E3_collide_passive),
        (744, 32, E3_collide_passive), (775, 33, E3_collide_passive),
        (800, 28, E3_assistant_send), (806, 34, E3_collide_passive),
        (837, 36, E3_collide_passive), (868, 37, E3_collide_passive),
        (899, 38, E3_collide_passive), (930, 39, E3_collide_passive),
        (961, 40, E3_collide_passive)])"
  by (simp add: exp3_execute_def exp3_init_def CanBusBase_init_def CanBusBase.defs
        exp3_bus.defs exp3_loop.simps collide_def succeed_def update_state_def CanNode_init_def
        schedule_def heappush_def heappop_def pop_next_def record_history_def
        exp3_send_attack_def exp3_handle_collision_def exp3_recover_defender_def
        exp3_collide_passive_def exp3_assistant_send_def exp3_record_history_def
        GAP_US_def ASSISTANT_GAP_US_def ATTACKER_PERIOD_US_def Let_def)

section \<open>The two experiments: results\<close>

lemma exp1_terminates: "\<exists>s tr. exp1_execute N = Some (s, tr)"
proof (cases "1 \<le> N")
  case True
  from exp1_run [OF this] show ?thesis by blast
next
  case False
  let ?s0 = "schedule 0 E1_start_round (CanBusBase_init ''exp_1.txt'') :: exp1_bus"
  have e0: "events ?s0 = [(0, 0, E1_start_round)]" and r0: "rounds ?s0 = 0"
    by (simp_all add: CanBusBase_init_def)
  from False r0 have "N \<le> rounds ?s0" by simp
  from exp1_round_stop [OF e0 this] obtain s1 where
    "exp1_leads N ?s0 [E1_start_round] s1" "events s1 = []" by blast
  from exp1_leads_result [OF this] show ?thesis by (auto simp: exp1_execute_def)
qed

text \<open>
  Claim C6. Experiment 1, for every round limit, and experiment 3 both return, and in
  the run the times of the popped entries never decrease; they are the clock values that
  the history records. No callback of either experiment adds an entry with a time before
  the clock: all delays in the two drivers are 0 or one of the positive constants.
\<close>

theorem clock_monotone:
  "(\<exists>s tr. exp1_execute N = Some (s, tr)
      \<and> sorted (map event_time tr) \<and> hist_time s = map event_time tr)
   \<and> (\<exists>s tr. exp3_execute = Some (s, tr)
      \<and> sorted (map event_time tr) \<and> hist_time s = map event_time tr)
   \<and> (\<forall>e\<in>set (events (exp1_call N cb1 b1)). e \<in> set (events b1) \<or> time_us b1 \<le> event_time e)
   \<and> (\<forall>e\<in>set (events (exp3_call cb3 b3)). e \<in> set (events b3) \<or> time_us b3 \<le> event_time e)"
proof -
  from exp1_terminates obtain s tr where r: "exp1_execute N = Some (s, tr)" by blast
  from exp1_clock_result [OF r]
  have 1: "\<exists>s tr. exp1_execute N = Some (s, tr)
      \<and> sorted (map event_time tr) \<and> hist_time s = map event_time tr"
    using r by (auto simp: clock_inv_def)
  obtain s3 tr3 where r3: "exp3_execute = Some (s3, tr3)" using exp3_run by blast
  from exp3_clock_result [OF r3]
  have 2: "\<exists>s tr. exp3_execute = Some (s, tr)
      \<and> sorted (map event_time tr) \<and> hist_time s = map event_time tr"
    using r3 by (auto simp: clock_inv_def)
  from 1 2 exp1_call_events [of N cb1 b1] exp3_call_events [of cb3 b3]
  show ?thesis by (intro conjI)
qed

theorem clock_monotone_witness:
  "(\<exists>s tr. exp1_main = Some (s, tr) \<and> sorted (map event_time tr)
      \<and> hist_time s = map event_time tr)
   \<and> (\<exists>s tr. exp3_execute = Some (s, tr) \<and> sorted (map event_time tr)
      \<and> map event_time tr =
          [0, 0, 0, 31, 62, 93, 124, 155, 186, 200, 217, 248, 279, 310, 341,
           372, 400, 403, 434, 465, 496, 496, 527, 558, 589, 600, 620, 651,
           682, 713, 744, 775, 800, 806, 837, 868, 899, 930, 961])
   \<and> filter (\<lambda>e. event_time e < 0)
        (events (exp3_call E3_send_attack
           (schedule 0 E3_assistant_send (schedule 0 E3_send_attack exp3_init)))) = []"
proof -
  note c = clock_monotone [of 3 E1_start_round "CanBusBase_init ''exp_1.txt''" E3_send_attack
      "schedule 0 E3_assistant_send (schedule 0 E3_send_attack exp3_init)"]
  have t: "time_us (schedule 0 E3_assistant_send (schedule 0 E3_send_attack exp3_init)) = 0"
    by (simp add: exp3_init_def CanBusBase_init_def CanBusBase.defs)
  from c have 1: "\<exists>s tr. exp1_main = Some (s, tr) \<and> sorted (map event_time tr)
      \<and> hist_time s = map event_time tr"
    by (simp add: exp1_main_def MAX_ROUNDS_def)
  from c have 2: "\<exists>s tr. exp3_execute = Some (s, tr) \<and> sorted (map event_time tr)
      \<and> map event_time tr =
          [0, 0, 0, 31, 62, 93, 124, 155, 186, 200, 217, 248, 279, 310, 341,
           372, 400, 403, 434, 465, 496, 496, 527, 558, 589, 600, 620, 651,
           682, 713, 744, 775, 800, 806, 837, 868, 899, 930, 961]"
    by (simp add: exp3_run)
  have ev: "events (schedule 0 E3_assistant_send (schedule 0 E3_send_attack exp3_init))
      = [(0, 0, E3_send_attack), (0, 1, E3_assistant_send)]"
    by (simp add: exp3_init_def CanBusBase_init_def CanBusBase.defs)
  from c have "\<forall>e\<in>set (events (exp3_call E3_send_attack
             (schedule 0 E3_assistant_send (schedule 0 E3_send_attack exp3_init)))).
         e \<in> set (events (schedule 0 E3_assistant_send (schedule 0 E3_send_attack exp3_init)))
         \<or> time_us (schedule 0 E3_assistant_send (schedule 0 E3_send_attack exp3_init))
             \<le> event_time e"
    by blast
  then have 3: "filter (\<lambda>e. event_time e < 0)
        (events (exp3_call E3_send_attack
           (schedule 0 E3_assistant_send (schedule 0 E3_send_attack exp3_init)))) = []"
    unfolding t ev by (auto simp: filter_empty_conv)
  from 1 2 3 show ?thesis by (intro conjI)
qed

text \<open>
  Claim C7. For every round limit of at least 1, experiment 1 returns. The history holds
  the two counters as they were before each executed entry, one value per entry: all of
  them, and the two counters at the end, are below 256, so neither node is ever at the
  \<open>BUS_OFF\<close> threshold. Whenever a round start is executed, which is where the round before
  it ends, both counters are below 128, the range of \<open>ACTIVE\<close>; at the end both nodes are
  \<open>ACTIVE\<close>.
\<close>

theorem exp1_never_bus_off:
  assumes "1 \<le> N"
  shows "\<exists>s tr. exp1_execute N = Some (s, tr)
     \<and> length (hist_attacker s) = length tr \<and> length (hist_defender s) = length tr
     \<and> (\<forall>x\<in>set (hist_attacker s). x < 256) \<and> (\<forall>x\<in>set (hist_defender s). x < 256)
     \<and> TEC (attacker s) < 256 \<and> TEC (defender s) < 256
     \<and> (\<forall>i<length tr. event_callback (tr ! i) = E1_start_round
           \<longrightarrow> hist_attacker s ! i < 128 \<and> hist_defender s ! i < 128)
     \<and> state (attacker s) = ACTIVE \<and> state (defender s) = ACTIVE"
proof -
  from exp1_run [OF assms] obtain s tr where r: "exp1_execute N = Some (s, tr)"
    and f: "TEC (attacker s) = 127" "TEC (defender s) = 127"
      "state (attacker s) = ACTIVE" "state (defender s) = ACTIVE"
    by blast
  from exp1_safe_result [OF r] have inv: "exp1_safe s tr" by simp
  from inv have len: "length (hist_attacker s) = length tr" "length (hist_defender s) = length tr"
    by (simp_all add: exp1_safe_def)
  from inv have "\<forall>x\<in>set (hist_attacker s). x \<le> 135" "\<forall>x\<in>set (hist_defender s). x \<le> 135"
    by (simp_all add: exp1_safe_def)
  then have b: "\<forall>x\<in>set (hist_attacker s). x < 256" "\<forall>x\<in>set (hist_defender s). x < 256"
    by fastforce+
  from inv have e: "\<forall>i<length tr. event_callback (tr ! i) = E1_start_round
           \<longrightarrow> hist_attacker s ! i < 128 \<and> hist_defender s ! i < 128"
    by (simp add: exp1_safe_def)
  from f have t: "TEC (attacker s) < 256" "TEC (defender s) < 256" by simp_all
  from r len b t e f(3,4) show ?thesis by blast
qed

theorem exp1_never_bus_off_witness:
  "\<exists>s tr. exp1_main = Some (s, tr)
     \<and> filter (\<lambda>x. 256 \<le> x) (hist_attacker s) = []
     \<and> filter (\<lambda>x. 256 \<le> x) (hist_defender s) = []
     \<and> TEC (attacker s) < 256 \<and> TEC (defender s) < 256
     \<and> state (attacker s) = ACTIVE \<and> state (defender s) = ACTIVE"
proof -
  have "(1::int) \<le> 3" by simp
  from exp1_never_bus_off [OF this] obtain s tr where r: "exp1_execute 3 = Some (s, tr)"
    and b: "\<forall>x\<in>set (hist_attacker s). x < 256" "\<forall>x\<in>set (hist_defender s). x < 256"
    and f: "TEC (attacker s) < 256" "TEC (defender s) < 256"
      "state (attacker s) = ACTIVE" "state (defender s) = ACTIVE"
    by blast
  from b have "filter (\<lambda>x. 256 \<le> x) (hist_attacker s) = []"
    "filter (\<lambda>x. 256 \<le> x) (hist_defender s) = []"
    by (auto simp: filter_empty_conv)
  with r f show ?thesis unfolding exp1_main_def MAX_ROUNDS_def by blast
qed

text \<open>
  Claim C9. For every round limit \<open>N\<close> of at least 1, experiment 1 returns after executing
  exactly \<open>N\<close> full rounds, each from its round start through the collisions and the
  recovery of the defender to the end of the recovery of the attacker, followed by the one
  round start that finds the limit exceeded and schedules nothing. The round counter is
  then \<open>N + 1\<close>, nothing is pending, and both counters are back at 127. The limit is read
  by the round start only: every other callback does the same for every limit.
\<close>

theorem exp1_completes_rounds:
  assumes "1 \<le> N"
  shows "(\<exists>s tr. exp1_execute N = Some (s, tr)
       \<and> map event_callback tr =
           exp1_first_round @ concat (replicate (nat (N - 1)) exp1_later_round)
             @ [E1_start_round]
       \<and> events s = [] \<and> rounds s = N + 1
       \<and> TEC (attacker s) = 127 \<and> TEC (defender s) = 127)
     \<and> (cb \<noteq> E1_start_round \<longrightarrow> exp1_call N cb b = exp1_call M cb b)"
proof -
  have "cb \<noteq> E1_start_round \<longrightarrow> exp1_call N cb b = exp1_call M cb b"
    by (cases cb) simp_all
  with exp1_run [OF assms] show ?thesis by blast
qed

theorem exp1_completes_rounds_witness:
  "(\<exists>s tr. exp1_main = Some (s, tr)
       \<and> map event_callback tr =
           exp1_first_round @ exp1_later_round @ exp1_later_round @ [E1_start_round]
       \<and> length tr = 56 \<and> events s = [] \<and> rounds s = 4)
   \<and> exp1_call 3 E1_handle_collision (CanBusBase_init ''exp_1.txt'')
       = exp1_call 0 E1_handle_collision (CanBusBase_init ''exp_1.txt'')"
proof -
  have n: "(1::int) \<le> 3" by simp
  have l: "length (exp1_first_round @ exp1_later_round @ exp1_later_round @ [E1_start_round]) = 56"
    by (simp add: exp1_first_round_def exp1_later_round_def)
  have c: "concat (replicate (nat (3 - 1)) exp1_later_round) = exp1_later_round @ exp1_later_round"
    by (simp add: numeral_2_eq_2)
  from exp1_completes_rounds [OF n, of E1_handle_collision "CanBusBase_init ''exp_1.txt''" 0]
  obtain s tr where r: "exp1_execute 3 = Some (s, tr)"
    "map event_callback tr =
       exp1_first_round @ exp1_later_round @ exp1_later_round @ [E1_start_round]"
    "events s = []" "rounds s = 4"
    and q: "exp1_call 3 E1_handle_collision (CanBusBase_init ''exp_1.txt'')
       = exp1_call 0 E1_handle_collision (CanBusBase_init ''exp_1.txt'')"
    unfolding c by auto
  from r(2) l have "length tr = 56" by (metis length_map)
  with r q show ?thesis unfolding exp1_main_def MAX_ROUNDS_def by blast
qed

text \<open>
  Claim C8. With the constants of the source (gap 31, assistant gap 200, attacker period
  1000000) experiment 3 returns after 39 popped entries with the attacker at the counter
  256 and in the state \<open>BUS_OFF\<close>, while two entries are still pending; before each of the
  39 entries the counter of the attacker was below 256. In general the loop returns at
  once, whatever is pending, when it is entered with the attacker in the state \<open>BUS_OFF\<close>.
\<close>

theorem exp3_reaches_bus_off:
  "(\<exists>s tr. exp3_execute = Some (s, tr) \<and> length tr = 39
       \<and> TEC (attacker s) = 256 \<and> state (attacker s) = BUS_OFF
       \<and> events s = [(1000000, 3, E3_send_attack), (1000, 35, E3_assistant_send)]
       \<and> (\<forall>x\<in>set (hist_attacker s). x < 256))
   \<and> (state (attacker b) = BUS_OFF \<longrightarrow> exp3_loop b popped = Some (b, popped))"
proof -
  have "\<exists>s tr. exp3_execute = Some (s, tr) \<and> length tr = 39
       \<and> TEC (attacker s) = 256 \<and> state (attacker s) = BUS_OFF
       \<and> events s = [(1000000, 3, E3_send_attack), (1000, 35, E3_assistant_send)]
       \<and> (\<forall>x\<in>set (hist_attacker s). x < 256)"
    by (simp add: exp3_run)
  then show ?thesis using exp3_loop_bus_off [of b popped] by blast
qed

theorem exp3_reaches_bus_off_witness:
  "exp3_loop
     (exp3_init\<lparr>attacker := \<lparr>name = ''[E] ATTACKER'', TEC = 256, state = BUS_OFF\<rparr>,
                events := [(1000000, 3, E3_send_attack), (1000, 35, E3_assistant_send)]\<rparr>)
     [(961, 40, E3_collide_passive)]
   = Some
      (exp3_init\<lparr>attacker := \<lparr>name = ''[E] ATTACKER'', TEC = 256, state = BUS_OFF\<rparr>,
                 events := [(1000000, 3, E3_send_attack), (1000, 35, E3_assistant_send)]\<rparr>,
       [(961, 40, E3_collide_passive)])"
  using exp3_reaches_bus_off
    [of "exp3_init\<lparr>attacker := \<lparr>name = ''[E] ATTACKER'', TEC = 256, state = BUS_OFF\<rparr>,
                events := [(1000000, 3, E3_send_attack), (1000, 35, E3_assistant_send)]\<rparr>"
        "[(961, 40, E3_collide_passive)]"]
  by simp

end
